theory Spec2Isabelle
  imports Complex_Main
begin

section \<open>Data model\<close>

text \<open>
  The operators of \<^verbatim>\<open>proxalgs/operators.py\<close> work on numpy arrays of floats and on
  Python floats. Following the data model of the specification (real arrays, real
  scalars), a float is modelled by a real number: arithmetic is exact, and every input
  entry is finite. An array is its shape together with its entries in row-major order.
  The exceptions the operators can raise are values of the type \<open>error\<close>.
\<close>

datatype error = ValueError | ZeroDivisionError | IndexError | LinAlgError

record 'a ndarray =
  shape :: "nat list"
  data :: "'a list"

definition wf_array :: "'a ndarray \<Rightarrow> bool" where
  "wf_array a = (length (data a) = prod_list (shape a))"

text \<open>An operation between an array and a scalar acts on every entry and keeps the shape.\<close>

definition amap :: "('a \<Rightarrow> 'b) \<Rightarrow> 'a ndarray \<Rightarrow> 'b ndarray" where
  "amap f a = \<lparr>shape = shape a, data = map f (data a)\<rparr>"

text \<open>
  An operation between two arrays follows numpy's broadcasting: the shapes are aligned at
  their last axes, two aligned axes must be equal or one of them 1, and an axis of
  length 1 (or a missing one) is repeated. Shapes that do not fit raise ValueError.
\<close>

fun broadcast_rev :: "nat list \<Rightarrow> nat list \<Rightarrow> error + nat list" where
  "broadcast_rev [] ys = Inr ys"
| "broadcast_rev xs [] = Inr xs"
| "broadcast_rev (x # xs) (y # ys) =
     (if x = y \<or> y = 1 \<or> x = 1
      then (case broadcast_rev xs ys of
              Inl e \<Rightarrow> Inl e
            | Inr zs \<Rightarrow> Inr ((if x = 1 then y else x) # zs))
      else Inl ValueError)"

definition broadcast_shapes :: "nat list \<Rightarrow> nat list \<Rightarrow> error + nat list" where
  "broadcast_shapes s t =
     (case broadcast_rev (rev s) (rev t) of Inl e \<Rightarrow> Inl e | Inr r \<Rightarrow> Inr (rev r))"

text \<open>
  \<open>bcast t s d\<close> repeats the entries \<open>d\<close> of an array of shape \<open>s\<close> to the shape
  \<open>t\<close>, where \<open>s\<close> has been padded with leading ones to the length of \<open>t\<close>.
\<close>

fun bcast :: "nat list \<Rightarrow> nat list \<Rightarrow> 'a list \<Rightarrow> 'a list" where
  "bcast (t # ts) (s # ss) d =
     (if s = t
      then concat (map (\<lambda>i. bcast ts ss (take (prod_list ss) (drop (i * prod_list ss) d))) [0..<t])
      else concat (replicate t (bcast ts ss d)))"
| "bcast _ _ d = d"

definition broadcast_to :: "nat list \<Rightarrow> 'a ndarray \<Rightarrow> 'a ndarray" where
  "broadcast_to t a =
     \<lparr>shape = t,
      data = bcast t (replicate (length t - length (shape a)) 1 @ shape a) (data a)\<rparr>"

definition np_binop :: "('a \<Rightarrow> 'b \<Rightarrow> 'c) \<Rightarrow> 'a ndarray \<Rightarrow> 'b ndarray \<Rightarrow> error + 'c ndarray" where
  "np_binop f a b =
     (case broadcast_shapes (shape a) (shape b) of
        Inl e \<Rightarrow> Inl e
      | Inr t \<Rightarrow> Inr \<lparr>shape = t,
                       data = map2 f (data (broadcast_to t a)) (data (broadcast_to t b))\<rparr>)"

text \<open>
  Dividing an array by a scalar is numpy's \<^verbatim>\<open>true_divide\<close>: it never raises, and a
  zero divisor gives an infinity or a NaN. The entries of such a quotient are therefore
  extended values. (The only zero divisor the operators can produce is the sum
  \<^verbatim>\<open>1 + 1 / rho\<close> at \<open>rho = -1\<close>, a positive zero.)
\<close>

datatype npfloat = Finite real | PosInf | NegInf | NaN

definition true_divide :: "real \<Rightarrow> real \<Rightarrow> npfloat" where
  "true_divide a b =
     (if b \<noteq> 0 then Finite (a / b)
      else if 0 < a then PosInf else if a < 0 then NegInf else NaN)"

text \<open>The squared Euclidean distance of two vectors of entries.\<close>

definition sqdist :: "real list \<Rightarrow> real list \<Rightarrow> real" where
  "sqdist xs ys = sum_list (map2 (\<lambda>x y. (x - y)\<^sup>2) xs ys)"

section \<open>The closed-form elementwise operators\<close>

text \<open>
  \<^verbatim>\<open>
  def sparse(x0, rho, gamma):
      lmbda = float(gamma) / rho
      return (x0 - lmbda) * (x0 >= lmbda) + (x0 + lmbda) * (x0 <= -lmbda)
  \<close>
  The division is a division of Python floats: it raises ZeroDivisionError when
  \<open>rho\<close> is zero. The four arrays of the return expression come from \<open>x0\<close> and a
  scalar, so they have the shape of \<open>x0\<close> and are combined entry by entry; a boolean
  entry multiplies as 0 or 1.
\<close>

definition sparse :: "real ndarray \<Rightarrow> real \<Rightarrow> real \<Rightarrow> error + real ndarray" where
  "sparse x0 rho gamma =
     (if rho = 0 then Inl ZeroDivisionError
      else let lmbda = gamma / rho
           in Inr (amap (\<lambda>x. (x - lmbda) * of_bool (x \<ge> lmbda)
                              + (x + lmbda) * of_bool (x \<le> - lmbda)) x0))"

text \<open>Two passes of \<open>sparse\<close> with the same parameters; an error of the first pass ends the run.\<close>

definition sparse_twice :: "real ndarray \<Rightarrow> real \<Rightarrow> real \<Rightarrow> error + real ndarray" where
  "sparse_twice x0 rho gamma =
     (case sparse x0 rho gamma of Inl e \<Rightarrow> Inl e | Inr y \<Rightarrow> sparse y rho gamma)"

text \<open>
  \<^verbatim>\<open>
  def nonneg(x0, rho):
      return np.maximum(x0, 0)
  \<close>
\<close>

definition nonneg :: "real ndarray \<Rightarrow> real \<Rightarrow> real ndarray" where
  "nonneg x0 rho = amap (\<lambda>x. max x 0) x0"

text \<open>
  \<^verbatim>\<open>
  def squared_error(x0, rho, x_obs):
      return (x0 + x_obs / rho) / (1 + 1 / rho)
  \<close>
  The numerator is evaluated first: \<^verbatim>\<open>x_obs / rho\<close> is a numpy division, which does
  not raise, and the sum broadcasts, which raises ValueError on shapes that do not fit.
  Then \<^verbatim>\<open>1 / rho\<close> is a division of Python numbers, which raises ZeroDivisionError
  at \<open>rho = 0\<close> (so the entries of \<^verbatim>\<open>x_obs / rho\<close> at \<open>rho = 0\<close> are never
  seen). The last division is again numpy's.
\<close>

definition squared_error :: "real ndarray \<Rightarrow> real \<Rightarrow> real ndarray \<Rightarrow> error + npfloat ndarray" where
  "squared_error x0 rho x_obs =
     (case np_binop (+) x0 (amap (\<lambda>v. v / rho) x_obs) of
        Inl e \<Rightarrow> Inl e
      | Inr num \<Rightarrow>
          if rho = 0 then Inl ZeroDivisionError
          else Inr (amap (\<lambda>v. true_divide v (1 + 1 / rho)) num))"

section \<open>Matrices and vectors\<close>

text \<open>
  A vector is an array of shape \<open>[n]\<close>, a matrix an array of shape \<open>[m, n]\<close> with its
  rows one after the other. \<open>asize\<close> is numpy's \<^verbatim>\<open>size\<close>, \<open>eye\<close> its
  \<^verbatim>\<open>eye\<close> and \<open>ones\<close> its \<^verbatim>\<open>ones\<close>; \<open>dsum k f\<close> is the sum of
  \<open>f 0, ..., f (k - 1)\<close>.
\<close>

definition asize :: "'a ndarray \<Rightarrow> nat" where
  "asize a = prod_list (shape a)"

definition matrix_of :: "nat \<Rightarrow> nat \<Rightarrow> (nat \<Rightarrow> nat \<Rightarrow> 'a) \<Rightarrow> 'a ndarray" where
  "matrix_of m n f = \<lparr>shape = [m, n], data = concat (map (\<lambda>i. map (f i) [0..<n]) [0..<m])\<rparr>"

definition vector_of :: "nat \<Rightarrow> (nat \<Rightarrow> 'a) \<Rightarrow> 'a ndarray" where
  "vector_of n f = \<lparr>shape = [n], data = map f [0..<n]\<rparr>"

definition at1 :: "'a ndarray \<Rightarrow> nat \<Rightarrow> 'a" where
  "at1 a i = data a ! i"

definition at2 :: "'a ndarray \<Rightarrow> nat \<Rightarrow> nat \<Rightarrow> 'a" where
  "at2 a i j = data a ! (i * (shape a ! 1) + j)"

definition dsum :: "nat \<Rightarrow> (nat \<Rightarrow> real) \<Rightarrow> real" where
  "dsum k f = sum_list (map f [0..<k])"

definition eye :: "nat \<Rightarrow> real ndarray" where
  "eye n = matrix_of n n (\<lambda>i j. if i = j then 1 else 0)"

definition ones :: "nat \<Rightarrow> real ndarray" where
  "ones n = \<lparr>shape = [n], data = replicate n 1\<rparr>"

text \<open>
  \<^verbatim>\<open>np.diag\<close>: the diagonal matrix of a vector, the diagonal of a matrix, and
  ValueError for every other number of axes.
\<close>

definition np_diag :: "real ndarray \<Rightarrow> error + real ndarray" where
  "np_diag v =
     (case shape v of
        [k] \<Rightarrow> Inr (matrix_of k k (\<lambda>i j. if i = j then at1 v i else 0))
      | [m, n] \<Rightarrow> Inr (vector_of (min m n) (\<lambda>i. at2 v i i))
      | _ \<Rightarrow> Inl ValueError)"

text \<open>
  \<^verbatim>\<open>a.dot(b)\<close>: the product with a scalar when one side has no axis; otherwise the
  sum of products over the last axis of \<open>a\<close> and the last axis of a vector \<open>b\<close>, or
  the last but one axis of a \<open>b\<close> of more axes, and ValueError when these two axes
  differ. For two matrices this is the matrix product.
\<close>

definition dot :: "real ndarray \<Rightarrow> real ndarray \<Rightarrow> error + real ndarray" where
  "dot a b =
     (if shape a = [] \<or> shape b = [] then np_binop (*) a b
      else let k = last (shape a); ra = prod_list (butlast (shape a))
           in if length (shape b) = 1
              then (if shape b \<noteq> [k] then Inl ValueError
                    else Inr \<lparr>shape = butlast (shape a),
                              data = map (\<lambda>r. dsum k (\<lambda>l. data a ! (r * k + l) * data b ! l)) [0..<ra]\<rparr>)
              else let n = last (shape b); pb = prod_list (butlast (butlast (shape b)))
                   in if last (butlast (shape b)) \<noteq> k then Inl ValueError
                      else Inr \<lparr>shape = butlast (shape a) @ butlast (butlast (shape b)) @ [n],
                                data = concat (map (\<lambda>r. concat (map (\<lambda>p. map (\<lambda>c.
                                           dsum k (\<lambda>l. data a ! (r * k + l) * data b ! ((p * k + l) * n + c)))
                                         [0..<n]) [0..<pb])) [0..<ra])\<rparr>)"

text \<open>
  \<^verbatim>\<open>scipy.sparse.spdiags(data, diags, m, n)\<close>: the \<open>m\<close> by \<open>n\<close> matrix whose
  diagonal number \<open>diags[k]\<close> (0 the main one, positive above it, negative below it)
  holds the row \<open>data[k]\<close>, the entry in column \<open>j\<close> being \<open>data[k][j]\<close>. The
  sparse format is a matter of storage: the matrix is modelled by its dense entries.
\<close>

definition spdiags :: "real ndarray list \<Rightarrow> int list \<Rightarrow> nat \<Rightarrow> nat \<Rightarrow> real ndarray" where
  "spdiags rows diags m n =
     matrix_of m n (\<lambda>i j. sum_list (map2 (\<lambda>r k. if int j - int i = k \<and> j < length (data r) then data r ! j else 0) rows diags))"

section \<open>The operators that call a library solver\<close>

text \<open>
  The dense solver \<^verbatim>\<open>np.linalg.solve\<close>, the sparse solver \<^verbatim>\<open>spsolve\<close> and
  \<^verbatim>\<open>np.linalg.svd\<close> are library routines outside the repository: the operators take
  them as a parameter.
\<close>

type_synonym solver = "real ndarray \<Rightarrow> real ndarray \<Rightarrow> error + real ndarray"

type_synonym svd_fn = "real ndarray \<Rightarrow> error + (real ndarray \<times> real ndarray \<times> real ndarray)"

text \<open>
  \<^verbatim>\<open>
  def linsys(x0, rho, P, q):
      return np.linalg.solve(rho * np.eye(q.size) + P, rho * x0.copy() + q)
  \<close>
  The two arguments are evaluated from left to right; each sum broadcasts. The copy of
  \<open>x0\<close> has the entries of \<open>x0\<close>: arrays are values here.
\<close>

definition linsys :: "solver \<Rightarrow> real ndarray \<Rightarrow> real \<Rightarrow> real ndarray \<Rightarrow> real ndarray \<Rightarrow> error + real ndarray" where
  "linsys solve x0 rho P q =
     (case np_binop (+) (amap ((*) rho) (eye (asize q))) P of
        Inl e \<Rightarrow> Inl e
      | Inr a \<Rightarrow>
          (case np_binop (+) (amap ((*) rho) x0) q of
             Inl e \<Rightarrow> Inl e
           | Inr b \<Rightarrow> solve a b))"

text \<open>
  \<^verbatim>\<open>
  def smooth(x0, rho, gamma):
      n = x0.shape[0]
      lap_op = spdiags([(2 + rho / gamma) * np.ones(n), -1 * np.ones(n), -1 * np.ones(n)],
                       [0, -1, 1], n, n, format='csc')
      x_out = spsolve(gamma * lap_op, rho * x0)
      return x_out
  \<close>
  An array without axes has no \<^verbatim>\<open>shape[0]\<close> (IndexError), and \<^verbatim>\<open>rho / gamma\<close>
  is a division of Python floats (ZeroDivisionError at \<open>gamma = 0\<close>).
\<close>

definition smooth :: "solver \<Rightarrow> real ndarray \<Rightarrow> real \<Rightarrow> real \<Rightarrow> error + real ndarray" where
  "smooth spsolve x0 rho gamma =
     (case shape x0 of
        [] \<Rightarrow> Inl IndexError
      | n # _ \<Rightarrow>
          if gamma = 0 then Inl ZeroDivisionError
          else let lap_op = spdiags [amap ((*) (2 + rho / gamma)) (ones n),
                                     amap ((*) (- 1)) (ones n),
                                     amap ((*) (- 1)) (ones n)] [0, - 1, 1] n n
               in spsolve (amap ((*) gamma) lap_op) (amap ((*) rho) x0))"

text \<open>
  \<^verbatim>\<open>
  def nucnorm(x0, rho, gamma):
      u, s, v = np.linalg.svd(x0, full_matrices=False)
      sthr = np.maximum(s - (gamma / float(rho)), 0)
      x_out = (u.dot(np.diag(sthr)).dot(v))
      return x_out
  \<close>
  The third factor that \<^verbatim>\<open>np.linalg.svd\<close> returns is the transposed matrix of the
  right singular vectors.
\<close>

definition nucnorm :: "svd_fn \<Rightarrow> real ndarray \<Rightarrow> real \<Rightarrow> real \<Rightarrow> error + real ndarray" where
  "nucnorm svd x0 rho gamma =
     (case svd x0 of
        Inl e \<Rightarrow> Inl e
      | Inr (u, s, v) \<Rightarrow>
          if rho = 0 then Inl ZeroDivisionError
          else let sthr = amap (\<lambda>x. max x 0) (amap (\<lambda>x. x - gamma / rho) s)
               in (case np_diag sthr of
                     Inl e \<Rightarrow> Inl e
                   | Inr d \<Rightarrow> (case dot u d of Inl e \<Rightarrow> Inl e | Inr ud \<Rightarrow> dot ud v)))"

section \<open>The operators that call a library minimiser\<close>

text \<open>A result or an error; \<open>err_bind\<close> passes the first error on, as a raised exception does.\<close>

definition err_bind :: "error + 'a \<Rightarrow> ('a \<Rightarrow> error + 'b) \<Rightarrow> error + 'b" where
  "err_bind r f = (case r of Inl e \<Rightarrow> Inl e | Inr v \<Rightarrow> f v)"

text \<open>
  The caller's objective and gradient functions return floats, which may be infinite or
  NaN; the sum of two floats follows IEEE 754.
\<close>

fun npf_add :: "npfloat \<Rightarrow> npfloat \<Rightarrow> npfloat" where
  "npf_add (Finite a) (Finite b) = Finite (a + b)"
| "npf_add NaN _ = NaN"
| "npf_add _ NaN = NaN"
| "npf_add PosInf NegInf = NaN"
| "npf_add NegInf PosInf = NaN"
| "npf_add PosInf _ = PosInf"
| "npf_add _ PosInf = PosInf"
| "npf_add NegInf _ = NegInf"
| "npf_add _ NegInf = NegInf"

text \<open>
  \<^verbatim>\<open>reshape\<close> keeps the entries and raises ValueError when the new shape has another
  number of entries; \<^verbatim>\<open>np.sum\<close> and \<^verbatim>\<open>np.mean\<close> run over all entries (the mean
  of no entries is NaN); \<^verbatim>\<open>.T\<close> reverses the axes; \<^verbatim>\<open>flatten\<close> lays the entries
  out on one axis.
\<close>

definition reshape :: "'a ndarray \<Rightarrow> nat list \<Rightarrow> error + 'a ndarray" where
  "reshape a s = (if prod_list s = asize a then Inr \<lparr>shape = s, data = data a\<rparr> else Inl ValueError)"

definition np_sum :: "real ndarray \<Rightarrow> real" where
  "np_sum a = sum_list (data a)"

definition np_mean :: "real ndarray \<Rightarrow> npfloat" where
  "np_mean a = true_divide (sum_list (data a)) (real (length (data a)))"

fun indices :: "nat list \<Rightarrow> nat list list" where
  "indices [] = [[]]"
| "indices (n # ns) = concat (map (\<lambda>i. map ((#) i) (indices ns)) [0..<n])"

fun offset :: "nat list \<Rightarrow> nat list \<Rightarrow> nat" where
  "offset (n # ns) (i # is) = i * prod_list ns + offset ns is"
| "offset _ _ = 0"

definition transpose_array :: "'a ndarray \<Rightarrow> 'a ndarray" where
  "transpose_array a =
     \<lparr>shape = rev (shape a),
      data = map (\<lambda>idx. data a ! offset (shape a) (rev idx)) (indices (rev (shape a)))\<rparr>"

definition flatten :: "'a ndarray \<Rightarrow> 'a ndarray" where
  "flatten a = \<lparr>shape = [asize a], data = data a\<rparr>"

type_synonym objective = "real ndarray \<Rightarrow> error + npfloat"

type_synonym gradient = "real ndarray \<Rightarrow> error + npfloat ndarray"

type_synonym minimizer = "objective \<Rightarrow> real ndarray \<Rightarrow> gradient \<Rightarrow> error + npfloat ndarray"

text \<open>
  \<^verbatim>\<open>
  def bfgs(x0, rho, f, fgrad):
      g = lambda x: f(x) + (rho / 2) * np.sum((x.reshape(x0.shape) - x0) ** 2)
      dg = lambda x: fgrad(x) + rho * (x.reshape(x0.shape) - x0)
      return opt.fmin_bfgs(g, x0, dg, disp=False)
  \<close>
  \<^verbatim>\<open>scipy.optimize.fmin_bfgs\<close> is a library routine outside the repository and a
  parameter of the model. The operator returns its result as it is.
\<close>

definition bfgs :: "minimizer \<Rightarrow> real ndarray \<Rightarrow> real \<Rightarrow> objective \<Rightarrow> gradient \<Rightarrow> error + npfloat ndarray" where
  "bfgs fmin_bfgs x0 rho f fgrad =
     (let g = (\<lambda>x. err_bind (f x) (\<lambda>fx.
                    err_bind (reshape x (shape x0)) (\<lambda>xr.
                    err_bind (np_binop (-) xr x0) (\<lambda>d.
                    Inr (npf_add fx (Finite ((rho / 2) * np_sum (amap (\<lambda>v. v\<^sup>2) d))))))));
          dg = (\<lambda>x. err_bind (fgrad x) (\<lambda>gx.
                     err_bind (reshape x (shape x0)) (\<lambda>xr.
                     err_bind (np_binop (-) xr x0) (\<lambda>d.
                     np_binop npf_add gx (amap (\<lambda>v. Finite (rho * v)) d)))))
      in fmin_bfgs g x0 dg)"

text \<open>
  \<^verbatim>\<open>
  def poissreg(x0, rho, x, y):
      n = float(x.shape[0])
      f = lambda w: np.mean(np.exp(x.dot(w)) - y * x.dot(w))
      df = lambda w: (x.T.dot(np.exp(x.dot(w))) - x.T.dot(y)) / n
      return bfgs(x0, rho, f, df)
  \<close>
\<close>

definition poissreg :: "minimizer \<Rightarrow> real ndarray \<Rightarrow> real \<Rightarrow> real ndarray \<Rightarrow> real ndarray \<Rightarrow> error + npfloat ndarray" where
  "poissreg fmin_bfgs x0 rho x y =
     (case shape x of
        [] \<Rightarrow> Inl IndexError
      | m # _ \<Rightarrow>
          let n = real m;
              f = (\<lambda>w. err_bind (dot x w) (\<lambda>xw.
                        err_bind (np_binop (*) y xw) (\<lambda>yxw.
                        err_bind (np_binop (-) (amap exp xw) yxw) (\<lambda>d.
                        Inr (np_mean d)))));
              df = (\<lambda>w. err_bind (dot x w) (\<lambda>xw.
                         err_bind (dot (transpose_array x) (amap exp xw)) (\<lambda>a.
                         err_bind (dot (transpose_array x) y) (\<lambda>b.
                         err_bind (np_binop (-) a b) (\<lambda>d.
                         Inr (amap (\<lambda>v. true_divide v n) d))))))
          in bfgs fmin_bfgs x0 rho f df)"

section \<open>The adapter of the sum-of-functions optimiser\<close>

text \<open>
  \<^verbatim>\<open>
  def sfo(x0, rho, optimizer, num_steps=50):
      optimizer.set_theta(x0, float(rho))
      optimizer.theta_admm_prev = optimizer.theta_original_to_flat(x0)
      return optimizer.optimize(num_steps=num_steps)
  \<close>
  The adapter works on objects that the caller owns and that the optimiser's methods
  can reach, so the state is explicit. The arrays live in a store, an array being named
  by its address (its index in the store, where a new array is put at the end); \<open>x0\<close>
  is such an address, and so are the value of the attribute \<^verbatim>\<open>theta_admm_prev\<close>
  and the result. The optimiser object is this attribute and the rest of its state.
  \<open>rho\<close> and \<open>num_steps\<close> are Python numbers, which cannot be modified, and the
  module has no variable of its own. The methods of the optimiser are code outside the
  repository and parameters of the model: each takes the state and returns the new
  one, and nothing in their type keeps them from changing an array of the store. On a
  real number \<^verbatim>\<open>float\<close> is the identity.
\<close>

record 's pystate =
  arrays :: "real ndarray list"
  theta_admm_prev :: "nat option"
  internal :: 's

record 's sfo_methods =
  set_theta :: "nat \<Rightarrow> real \<Rightarrow> 's pystate \<Rightarrow> 's pystate"
  theta_original_to_flat :: "nat \<Rightarrow> 's pystate \<Rightarrow> nat \<times> 's pystate"
  optimize :: "int \<Rightarrow> 's pystate \<Rightarrow> nat \<times> 's pystate"

definition sfo :: "nat \<Rightarrow> real \<Rightarrow> 's sfo_methods \<Rightarrow> int \<Rightarrow> 's pystate \<Rightarrow> nat \<times> 's pystate" where
  "sfo x0 rho optimizer num_steps h =
     (let h1 = set_theta optimizer x0 rho h;
          (flat, h2) = theta_original_to_flat optimizer x0 h1;
          h3 = h2\<lparr>theta_admm_prev := Some flat\<rparr>
      in optimize optimizer num_steps h3)"

text \<open>The call without \<^verbatim>\<open>num_steps\<close> takes the default of 50 steps.\<close>

definition sfo_default :: "nat \<Rightarrow> real \<Rightarrow> 's sfo_methods \<Rightarrow> 's pystate \<Rightarrow> nat \<times> 's pystate" where
  "sfo_default x0 rho optimizer h = sfo x0 rho optimizer 50 h"

section \<open>The notions of the specification\<close>

text \<open>The soft-threshold function, entry by entry.\<close>

definition soft_threshold :: "real \<Rightarrow> real \<Rightarrow> real" where
  "soft_threshold lam x = (if lam \<le> x then x - lam else if x \<le> - lam then x + lam else 0)"

text \<open>
  The objective that \<open>squared_error\<close> minimises, on the entries of the arrays:
  half the squared distance to \<open>x_obs\<close> plus \<open>rho / 2\<close> times the squared distance
  to \<open>x0\<close>.
\<close>

definition sq_objective :: "real \<Rightarrow> real list \<Rightarrow> real list \<Rightarrow> real list \<Rightarrow> real" where
  "sq_objective rho x0 x_obs x = sqdist x x_obs / 2 + (rho / 2) * sqdist x x0"

text \<open>
  \<open>solves a b x\<close>: the vector \<open>x\<close> has the shape of \<open>b\<close> and satisfies the linear
  system with matrix \<open>a\<close> and right-hand side \<open>b\<close>.
\<close>

definition solves :: "real ndarray \<Rightarrow> real ndarray \<Rightarrow> real ndarray \<Rightarrow> bool" where
  "solves a b x =
     (shape x = shape b \<and> wf_array x \<and>
      (\<forall>i < asize b. dsum (asize b) (\<lambda>j. at2 a i j * at1 x j) = at1 b i))"

text \<open>
  A square matrix is singular when its determinant is zero; the determinant is expanded
  along the first row.
\<close>

definition rows_of :: "'a ndarray \<Rightarrow> 'a list list" where
  "rows_of a = map (\<lambda>i. take (shape a ! 1) (drop (i * (shape a ! 1)) (data a))) [0..<shape a ! 0]"

function det :: "real list list \<Rightarrow> real" where
  "det [] = 1"
| "det (r # rs) =
     sum_list (map (\<lambda>j. (- 1) ^ j * r ! j * det (map (\<lambda>row. take j row @ drop (Suc j) row) rs))
                   [0..<length r])"
  by pat_completeness auto
termination
  by (relation "measure length") auto

definition singular :: "real ndarray \<Rightarrow> bool" where
  "singular a = (det (rows_of a) = 0)"

text \<open>
  What the documentation of \<^verbatim>\<open>np.linalg.solve\<close> promises for a square matrix \<open>a\<close>
  and a vector \<open>b\<close>: LinAlgError when \<open>a\<close> is singular, and the solution of the
  system otherwise.
\<close>

definition linalg_solve_contract :: "solver \<Rightarrow> real ndarray \<Rightarrow> real ndarray \<Rightarrow> bool" where
  "linalg_solve_contract solve a b =
     (case solve a b of
        Inl e \<Rightarrow> e = LinAlgError \<and> singular a
      | Inr x \<Rightarrow> \<not> singular a \<and> solves a b x)"

text \<open>
  What \<^verbatim>\<open>scipy.optimize.fmin_bfgs\<close> does with the shape of its initial guess: it
  flattens it, works on vectors, and returns a vector with as many entries.
\<close>

definition returns_flat :: "minimizer \<Rightarrow> bool" where
  "returns_flat fmin = (\<forall>g x0 dg r. fmin g x0 dg = Inr r \<longrightarrow> shape r = [asize x0])"

text \<open>
  \<open>unchanged_arrays h h'\<close>: every array of the store of \<open>h\<close> is in the store of
  \<open>h'\<close> at its address, with its shape and its entries; \<open>h'\<close> may hold new arrays.
\<close>

definition unchanged_arrays :: "'s pystate \<Rightarrow> 's pystate \<Rightarrow> bool" where
  "unchanged_arrays h h' =
     (length (arrays h) \<le> length (arrays h') \<and> take (length (arrays h)) (arrays h') = arrays h)"

text \<open>
  What the adapter needs of the optimiser for the caller's arrays to survive a call:
  none of the three methods changes an array that exists when it is called.
\<close>

definition keeps_arrays :: "'s sfo_methods \<Rightarrow> bool" where
  "keeps_arrays optimizer =
     ((\<forall>x r h. unchanged_arrays h (set_theta optimizer x r h))
      \<and> (\<forall>x h. unchanged_arrays h (snd (theta_original_to_flat optimizer x h)))
      \<and> (\<forall>n h. unchanged_arrays h (snd (optimize optimizer n h))))"

text \<open>
  What \<^verbatim>\<open>theta_original_to_flat\<close> is for: it returns an array of the store that
  holds the entries of the array it is given, on one axis.
\<close>

definition converts_to_flat :: "'s sfo_methods \<Rightarrow> bool" where
  "converts_to_flat optimizer =
     (\<forall>x h. x < length (arrays h) \<longrightarrow>
        fst (theta_original_to_flat optimizer x h)
          < length (arrays (snd (theta_original_to_flat optimizer x h)))
        \<and> arrays (snd (theta_original_to_flat optimizer x h))
            ! fst (theta_original_to_flat optimizer x h)
          = flatten (arrays h ! x))"

section \<open>Reference routines in exact arithmetic\<close>

text \<open>
  To run the operators on concrete inputs, the library routines need an executable
  stand-in: Cramer's rule for both solvers, and for the singular value decomposition
  the one of a diagonal matrix with non-negative, decreasing diagonal (identity, the
  diagonal, identity).
\<close>

definition cramer :: solver where
  "cramer a b =
     (if singular a then Inl LinAlgError
      else Inr (vector_of (asize b)
             (\<lambda>j. det (map2 (\<lambda>row v. row[j := v]) (rows_of a) (data b)) / det (rows_of a))))"

definition diag_svd :: svd_fn where
  "diag_svd x =
     (case shape x of
        [m, n] \<Rightarrow> Inr (eye m, vector_of (min m n) (\<lambda>i. at2 x i i), eye n)
      | _ \<Rightarrow> Inl LinAlgError)"

text \<open>
  For the minimiser: a gradient descent with a fixed step and a bound on the number of
  steps, which follows the calling convention of \<^verbatim>\<open>fmin_bfgs\<close>: it flattens the
  initial guess, evaluates the objective once there, returns the flat guess at once
  when the gradient vanishes (or is not finite) there, and raises ValueError when a
  gradient that does not vanish has another shape than the flat parameter vector.
  The constant zero serves as an objective, with its gradient; \<open>unit_gradient\<close> is a
  gradient that vanishes nowhere.
\<close>

fun finite_entries :: "npfloat list \<Rightarrow> real list option" where
  "finite_entries [] = Some []"
| "finite_entries (Finite v # vs) = map_option ((#) v) (finite_entries vs)"
| "finite_entries (_ # vs) = None"

fun descent :: "nat \<Rightarrow> gradient \<Rightarrow> real ndarray \<Rightarrow> error + npfloat ndarray" where
  "descent 0 dg x = Inr (amap Finite x)"
| "descent (Suc k) dg x =
     (case dg x of
        Inl e \<Rightarrow> Inl e
      | Inr gr \<Rightarrow>
          (case finite_entries (data gr) of
             None \<Rightarrow> Inr (amap Finite x)
           | Some vs \<Rightarrow>
               if list_all (\<lambda>v. v = 0) vs then Inr (amap Finite x)
               else if shape gr \<noteq> shape x then Inl ValueError
               else descent k dg (x\<lparr>data := map2 (\<lambda>a b. a - b / 10) (data x) vs\<rparr>)))"

definition fmin_descent :: "nat \<Rightarrow> minimizer" where
  "fmin_descent k g x0 dg = err_bind (g (flatten x0)) (\<lambda>_. descent k dg (flatten x0))"

definition zero_objective :: objective where
  "zero_objective w = Inr (Finite 0)"

definition zero_gradient :: "nat list \<Rightarrow> gradient" where
  "zero_gradient s w = Inr \<lparr>shape = s, data = replicate (prod_list s) (Finite 0)\<rparr>"

definition unit_gradient :: "nat list \<Rightarrow> gradient" where
  "unit_gradient s w = Inr \<lparr>shape = s, data = replicate (prod_list s) (Finite 1)\<rparr>"

text \<open>
  For the optimiser object: the rest of its state is the current parameter vector, its
  weight and a step counter. \<^verbatim>\<open>set_theta\<close> reads the entries of the array it is
  given, the conversion puts a flat copy of the array into the store, one step halves
  the parameters, and \<^verbatim>\<open>optimize\<close> puts the parameters after its steps into the
  store.
\<close>

definition halving_step :: "(real list \<times> real \<times> nat) pystate \<Rightarrow> (real list \<times> real \<times> nat) pystate" where
  "halving_step h = (case internal h of (th, w, c) \<Rightarrow> h\<lparr>internal := (map (\<lambda>v. v / 2) th, w, Suc c)\<rparr>)"

definition halving_result :: "(real list \<times> real \<times> nat) pystate \<Rightarrow> nat \<times> (real list \<times> real \<times> nat) pystate" where
  "halving_result h =
     (case internal h of (th, w, c) \<Rightarrow>
        (length (arrays h), h\<lparr>arrays := arrays h @ [\<lparr>shape = [length th], data = th\<rparr>]\<rparr>))"

definition halving_sfo :: "(real list \<times> real \<times> nat) sfo_methods" where
  "halving_sfo =
     \<lparr>set_theta = (\<lambda>x w h. h\<lparr>internal := (if x < length (arrays h) then data (arrays h ! x) else [], w, 0)\<rparr>),
      theta_original_to_flat = (\<lambda>x h. (length (arrays h),
          h\<lparr>arrays := arrays h @ [if x < length (arrays h) then flatten (arrays h ! x)
                                   else \<lparr>shape = [0], data = []\<rparr>]\<rparr>)),
      optimize = (\<lambda>k h. halving_result ((halving_step ^^ nat k) h))\<rparr>"

section \<open>Broadcasting arrays of one shape\<close>

lemma broadcast_rev_same: "broadcast_rev s s = Inr s"
  by (induction s) auto

lemma broadcast_shapes_same: "broadcast_shapes s s = Inr s"
  by (simp add: broadcast_shapes_def broadcast_rev_same)

lemma concat_chunks:
  "length d = t * c \<Longrightarrow> concat (map (\<lambda>i. take c (drop (i * c) d)) [0..<t]) = d"
proof (induction t arbitrary: d)
  case 0
  then show ?case by simp
next
  case (Suc t)
  have len: "length (drop c d) = t * c"
    using Suc.prems by simp
  have "concat (map (\<lambda>i. take c (drop (i * c) d)) [0..<Suc t])
      = take c d @ concat (map (\<lambda>i. take c (drop (Suc i * c) d)) [0..<t])"
    by (simp add: upt_conv_Cons map_Suc_upt [symmetric] comp_def del: upt_Suc)
  also have "(\<lambda>i. take c (drop (Suc i * c) d)) = (\<lambda>i. take c (drop (i * c) (drop c d)))"
    by (simp add: fun_eq_iff add.commute)
  also have "concat (map (\<lambda>i. take c (drop (i * c) (drop c d))) [0..<t]) = drop c d"
    by (rule Suc.IH [OF len])
  finally show ?case by simp
qed

lemma bcast_same:
  "length d = prod_list s \<Longrightarrow> bcast s s d = d"
proof (induction s arbitrary: d)
  case Nil
  then show ?case by simp
next
  case (Cons t ts)
  have chunk: "bcast ts ts (take (prod_list ts) (drop (i * prod_list ts) d))
             = take (prod_list ts) (drop (i * prod_list ts) d)" if "i < t" for i
  proof (rule Cons.IH)
    from that have "Suc i * prod_list ts \<le> t * prod_list ts"
      by (intro mult_le_mono1) simp
    with Cons.prems show "length (take (prod_list ts) (drop (i * prod_list ts) d)) = prod_list ts"
      by simp
  qed
  have m: "map (\<lambda>i. bcast ts ts (take (prod_list ts) (drop (i * prod_list ts) d))) [0..<t]
      = map (\<lambda>i. take (prod_list ts) (drop (i * prod_list ts) d)) [0..<t]"
    by (rule map_cong) (simp_all add: chunk)
  have "bcast (t # ts) (t # ts) d
      = concat (map (\<lambda>i. bcast ts ts (take (prod_list ts) (drop (i * prod_list ts) d))) [0..<t])"
    by simp
  also have "\<dots> = concat (map (\<lambda>i. take (prod_list ts) (drop (i * prod_list ts) d)) [0..<t])"
    by (simp only: m)
  also have "\<dots> = d"
    using Cons.prems by (intro concat_chunks) simp
  finally show ?case .
qed

lemma broadcast_to_same: "wf_array a \<Longrightarrow> broadcast_to (shape a) a = \<lparr>shape = shape a, data = data a\<rparr>"
  by (simp add: broadcast_to_def wf_array_def bcast_same)

lemma np_binop_same_shape:
  assumes "wf_array a" and "wf_array b" and "shape b = shape a"
  shows "np_binop f a b = Inr \<lparr>shape = shape a, data = map2 f (data a) (data b)\<rparr>"
  using assms broadcast_to_same [of a] broadcast_to_same [of b]
  by (simp add: np_binop_def broadcast_shapes_same)

lemma sq_pointwise:
  fixes a b x rho :: real
  assumes "0 < rho"
  shows "(x - b)\<^sup>2 / 2 + (rho / 2) * (x - a)\<^sup>2
       = (((a + b / rho) / (1 + 1 / rho)) - b)\<^sup>2 / 2 + (rho / 2) * (((a + b / rho) / (1 + 1 / rho)) - a)\<^sup>2
         + ((1 + rho) / 2) * (x - (a + b / rho) / (1 + 1 / rho))\<^sup>2"
proof -
  define r where "r = (a + b / rho) / (1 + 1 / rho)"
  have n: "a + b / rho = (rho * a + b) / rho" and d: "1 + 1 / rho = (rho + 1) / rho"
    using assms by (simp_all add: field_simps)
  have "r = (rho * a + b) / (rho + 1)"
    unfolding r_def n d using assms by simp
  then have "r * (rho + 1) = rho * a + b"
    using assms by (simp add: field_simps)
  then have rel: "b = (rho + 1) * r - rho * a"
    by (simp add: algebra_simps)
  have "(x - b)\<^sup>2 / 2 + (rho / 2) * (x - a)\<^sup>2
      = (r - b)\<^sup>2 / 2 + (rho / 2) * (r - a)\<^sup>2 + ((1 + rho) / 2) * (x - r)\<^sup>2"
    unfolding rel by (simp add: power2_eq_square field_simps)
  then show ?thesis by (simp add: r_def)
qed

section \<open>Soft thresholding\<close>

lemma sparse_entry:
  assumes "0 < lam"
  shows "(x - lam) * of_bool (x \<ge> lam) + (x + lam) * of_bool (x \<le> - lam) = soft_threshold lam x"
  using assms by (simp add: soft_threshold_def)

text \<open>
  C1. For positive \<open>rho\<close> and \<open>gamma\<close>, \<open>sparse\<close> returns the array of the shape of
  \<open>x0\<close> whose entries are the soft-thresholded entries of \<open>x0\<close>, with threshold
  \<open>gamma / rho\<close>: \<open>x - lambda\<close> where \<open>x \<ge> lambda\<close>, \<open>x + lambda\<close> where
  \<open>x \<le> - lambda\<close>, and 0 otherwise.
\<close>

theorem sparse_soft_threshold:
  assumes "0 < rho" and "0 < gamma"
  shows "sparse x0 rho gamma =
           Inr \<lparr>shape = shape x0,
                data = map (\<lambda>x. if gamma / rho \<le> x then x - gamma / rho
                                else if x \<le> - (gamma / rho) then x + gamma / rho
                                else 0) (data x0)\<rparr>"
proof -
  from assms have lam: "0 < gamma / rho" by simp
  have "(\<lambda>x. (x - gamma / rho) * of_bool (x \<ge> gamma / rho)
               + (x + gamma / rho) * of_bool (x \<le> - (gamma / rho)))
        = (\<lambda>x. if gamma / rho \<le> x then x - gamma / rho
                 else if x \<le> - (gamma / rho) then x + gamma / rho else 0)"
    using sparse_entry [OF lam] by (simp add: soft_threshold_def fun_eq_iff)
  with assms show ?thesis
    by (simp add: sparse_def amap_def Let_def)
qed

text \<open>The scenario of the specification: threshold 1 on the entries 3, -3 and 0.5.\<close>

theorem sparse_soft_threshold_witness:
  "(0::real) < 1 \<and>
   sparse \<lparr>shape = [3], data = [3, -3, 1/2]\<rparr> 1 1 = Inr \<lparr>shape = [3], data = [2, -2, 0]\<rparr>"
  using sparse_soft_threshold [of 1 1 "\<lparr>shape = [3], data = [3, -3, 1/2]\<rparr>"]
  by simp

lemma sparse_eq:
  assumes "0 < rho" and "0 < gamma"
  shows "sparse x0 rho gamma = Inr (amap (soft_threshold (gamma / rho)) x0)"
proof -
  from assms have lam: "0 < gamma / rho" by simp
  have "(\<lambda>x. (x - gamma / rho) * of_bool (x \<ge> gamma / rho)
               + (x + gamma / rho) * of_bool (x \<le> - (gamma / rho)))
        = soft_threshold (gamma / rho)"
    using sparse_entry [OF lam] by (simp add: fun_eq_iff)
  with assms show ?thesis
    by (simp add: sparse_def Let_def)
qed

lemma soft_threshold_zero:
  assumes "0 < lam" and "\<bar>x\<bar> \<le> lam"
  shows "soft_threshold lam x = 0"
  using assms by (auto simp: soft_threshold_def)

text \<open>
  C2, as amended. For positive \<open>rho\<close> and \<open>gamma\<close> and an input \<open>x0\<close>, already
  thresholded or not, all of whose entries have magnitude at most \<open>gamma / rho\<close>, a
  second pass of \<open>sparse\<close> with the same parameters returns what the first pass
  returned: the array of zeros of the shape of \<open>x0\<close>.
\<close>

theorem sparse_twice_small:
  assumes "0 < rho" and "0 < gamma" and "\<forall>x \<in> set (data x0). \<bar>x\<bar> \<le> gamma / rho"
  shows "sparse_twice x0 rho gamma = sparse x0 rho gamma
         \<and> sparse x0 rho gamma = Inr \<lparr>shape = shape x0, data = map (\<lambda>x. 0) (data x0)\<rparr>"
proof -
  from assms(1,2) have lam: "0 < gamma / rho" by simp
  have first: "map (soft_threshold (gamma / rho)) (data x0) = map (\<lambda>x. 0) (data x0)"
    using assms(3) by (simp add: soft_threshold_zero [OF lam])
  have zero: "soft_threshold (gamma / rho) 0 = 0"
    using lam by (simp add: soft_threshold_zero)
  have one: "sparse x0 rho gamma = Inr \<lparr>shape = shape x0, data = map (\<lambda>x. 0) (data x0)\<rparr>"
    by (simp add: sparse_eq [OF assms(1,2)] amap_def first)
  have "sparse_twice x0 rho gamma = sparse \<lparr>shape = shape x0, data = map (\<lambda>x. 0) (data x0)\<rparr> rho gamma"
    by (simp add: sparse_twice_def one)
  also have "\<dots> = Inr \<lparr>shape = shape x0, data = map (\<lambda>x. 0) (data x0)\<rparr>"
    by (simp add: sparse_eq [OF assms(1,2)] amap_def comp_def zero)
  finally show ?thesis
    using one by simp
qed

theorem sparse_twice_small_witness:
  "(0::real) < 1 \<and>
   sparse_twice \<lparr>shape = [2], data = [1/2, -1]\<rparr> 1 1 = sparse \<lparr>shape = [2], data = [1/2, -1]\<rparr> 1 1 \<and>
   sparse \<lparr>shape = [2], data = [1/2, -1]\<rparr> 1 1 = Inr \<lparr>shape = [2], data = [0, 0]\<rparr>"
  using sparse_twice_small [of 1 1 "\<lparr>shape = [2], data = [1/2, -1]\<rparr>"]
  by simp

text \<open>
  C2 as stated fails: the array \<open>[2]\<close> is the image of \<open>[3]\<close> under \<open>sparse\<close> with
  \<open>rho = gamma = 1\<close>, one more pass gives \<open>[1]\<close>, and two more passes give \<open>[0]\<close>.
\<close>

theorem sparse_not_idempotent:
  "sparse \<lparr>shape = [1], data = [3]\<rparr> 1 1 = Inr \<lparr>shape = [1], data = [2]\<rparr> \<and>
   sparse \<lparr>shape = [1], data = [2]\<rparr> 1 1 = Inr \<lparr>shape = [1], data = [1]\<rparr> \<and>
   sparse_twice \<lparr>shape = [1], data = [2]\<rparr> 1 1 = Inr \<lparr>shape = [1], data = [0]\<rparr> \<and>
   sparse_twice \<lparr>shape = [1], data = [2]\<rparr> 1 1 \<noteq> sparse \<lparr>shape = [1], data = [2]\<rparr> 1 1"
  by (simp add: sparse_twice_def sparse_def amap_def)

section \<open>Projection onto the non-negative orthant\<close>

lemma nonneg_pointwise:
  fixes x v :: real
  assumes "0 \<le> v"
  shows "(x - max x 0)\<^sup>2 \<le> (x - v)\<^sup>2"
proof (cases "0 \<le> x")
  case True
  then show ?thesis by (simp add: max_def)
next
  case False
  then have "x\<^sup>2 \<le> (x - v)\<^sup>2"
    using assms by (intro power2_le_iff_abs_le [THEN iffD2] abs_le_square_iff [THEN iffD1]) auto
  with False show ?thesis by (simp add: max_def)
qed

lemma sqdist_nonneg_le:
  assumes "length y = length xs" and "\<forall>v \<in> set y. 0 \<le> v"
  shows "sqdist xs (map (\<lambda>x. max x 0) xs) \<le> sqdist xs y"
  using assms
proof (induction y xs rule: list_induct2)
  case Nil
  then show ?case by (simp add: sqdist_def)
next
  case (Cons v vs x xs)
  then have "sqdist xs (map (\<lambda>x. max x 0) xs) \<le> sqdist xs vs" by simp
  moreover have "(x - max x 0)\<^sup>2 \<le> (x - v)\<^sup>2"
    using Cons.prems by (intro nonneg_pointwise) simp
  ultimately show ?case by (simp add: sqdist_def)
qed

text \<open>
  C4. \<open>nonneg\<close> returns the array of the shape of \<open>x0\<close> whose entries are the maxima
  of the entries of \<open>x0\<close> and 0, whatever \<open>rho\<close> is; it cannot fail (its result
  is an array, not an error), and its result is the point of the non-negative orthant
  nearest to \<open>x0\<close>.
\<close>

theorem nonneg_projection:
  "nonneg x0 rho = \<lparr>shape = shape x0, data = map (\<lambda>x. max x 0) (data x0)\<rparr>
   \<and> nonneg x0 rho = nonneg x0 rho'
   \<and> (\<forall>y. length y = length (data x0) \<and> (\<forall>v \<in> set y. 0 \<le> v)
          \<longrightarrow> sqdist (data x0) (data (nonneg x0 rho)) \<le> sqdist (data x0) y)"
  by (simp add: nonneg_def amap_def sqdist_nonneg_le)

theorem nonneg_projection_witness:
  "nonneg \<lparr>shape = [3], data = [-1, 2, 0]\<rparr> 5 = \<lparr>shape = [3], data = [0, 2, 0]\<rparr>
   \<and> nonneg \<lparr>shape = [3], data = [-1, 2, 0]\<rparr> 5 = nonneg \<lparr>shape = [3], data = [-1, 2, 0]\<rparr> 7
   \<and> sqdist [-1, 2, 0] [0, 2, 0] \<le> sqdist [-1, 2, 0] [1, 2, 3]"
proof -
  let ?x = "\<lparr>shape = [3], data = [-1, 2, 0 :: real]\<rparr>"
  note t = nonneg_projection [of ?x 5 7]
  from t have 1: "nonneg ?x 5 = \<lparr>shape = [3], data = [0, 2, 0]\<rparr>"
    by simp
  from t have 2: "nonneg ?x 5 = nonneg ?x 7"
    by blast
  from t have "length [1, 2, 3 :: real] = length (data ?x) \<and> (\<forall>v \<in> set [1, 2, 3 :: real]. 0 \<le> v)
      \<longrightarrow> sqdist (data ?x) (data (nonneg ?x 5)) \<le> sqdist (data ?x) [1, 2, 3]"
    by blast
  then have 3: "sqdist [-1, 2, 0] [0, 2, 0] \<le> sqdist [-1, 2, 0] [1, 2, 3]"
    unfolding 1 by simp
  from 1 2 3 show ?thesis by blast
qed

section \<open>Squared-error shrinkage\<close>

lemma squared_error_same_shape:
  assumes "rho \<noteq> 0" and "wf_array x0" and "wf_array x_obs" and "shape x_obs = shape x0"
  shows "squared_error x0 rho x_obs =
           Inr \<lparr>shape = shape x0,
                data = map2 (\<lambda>a b. true_divide (a + b / rho) (1 + 1 / rho)) (data x0) (data x_obs)\<rparr>"
proof -
  let ?q = "amap (\<lambda>v. v / rho) x_obs"
  have wf: "wf_array ?q"
    using assms(3) by (simp add: wf_array_def amap_def)
  have sh: "shape ?q = shape x0"
    using assms(4) by (simp add: amap_def)
  have nb: "np_binop (+) x0 ?q = Inr \<lparr>shape = shape x0, data = map2 (+) (data x0) (data ?q)\<rparr>"
    by (rule np_binop_same_shape [OF assms(2) wf sh])
  have "map (\<lambda>v. true_divide v (1 + 1 / rho)) (map2 (+) (data x0) (data ?q))
      = map2 (\<lambda>a b. true_divide (a + b / rho) (1 + 1 / rho)) (data x0) (data x_obs)"
    by (simp add: amap_def zip_map2 split_def)
  then show ?thesis
    using assms(1) by (simp add: squared_error_def nb) (simp add: amap_def)
qed

lemma shrink_quotient:
  fixes a b rho :: real
  assumes "rho \<noteq> 0"
  shows "(a + b / rho) / (1 + 1 / rho) = (rho * a + b) / (rho + 1)"
proof -
  have n: "a + b / rho = (rho * a + b) / rho" and d: "1 + 1 / rho = (rho + 1) / rho"
    using assms by (simp_all add: field_simps)
  show ?thesis
    unfolding n d using assms by simp
qed

lemma sq_objective_split:
  assumes "0 < rho" and "length x = length xs" and "length xs = length ys"
  shows "sq_objective rho xs ys x
       = sq_objective rho xs ys (map2 (\<lambda>a b. (a + b / rho) / (1 + 1 / rho)) xs ys)
         + ((1 + rho) / 2) * sqdist x (map2 (\<lambda>a b. (a + b / rho) / (1 + 1 / rho)) xs ys)"
  using assms(2,3)
proof (induction x xs ys rule: list_induct3)
  case Nil
  then show ?case by (simp add: sq_objective_def sqdist_def)
next
  case (Cons x xs a as b bs)
  from Cons.IH sq_pointwise [OF assms(1), of x b a] show ?case
    by (simp add: sq_objective_def sqdist_def algebra_simps add_divide_distrib)
qed

lemma sqdist_nonneg: "0 \<le> sqdist xs ys"
  by (auto simp: sqdist_def intro!: sum_list_nonneg)

text \<open>
  C5. For positive \<open>rho\<close> and arrays \<open>x0\<close> and \<open>x_obs\<close> of one shape,
  \<open>squared_error\<close> returns the array of that shape with the finite entries
  \<open>(x0 + x_obs / rho) / (1 + 1 / rho)\<close>, and these entries minimise the objective
  \<open>||x - x_obs||^2 / 2 + (rho / 2) ||x - x0||^2\<close> over all vectors \<open>x\<close> of that length.
\<close>

theorem squared_error_closed_form:
  assumes "0 < rho" and "wf_array x0" and "wf_array x_obs" and "shape x_obs = shape x0"
  shows "\<exists>r. r = map2 (\<lambda>a b. (a + b / rho) / (1 + 1 / rho)) (data x0) (data x_obs)
           \<and> squared_error x0 rho x_obs = Inr \<lparr>shape = shape x0, data = map Finite r\<rparr>
           \<and> (\<forall>x. length x = length r
                  \<longrightarrow> sq_objective rho (data x0) (data x_obs) r
                        \<le> sq_objective rho (data x0) (data x_obs) x)"
proof -
  let ?r = "map2 (\<lambda>a b. (a + b / rho) / (1 + 1 / rho)) (data x0) (data x_obs)"
  from assms(1) have ne: "rho \<noteq> 0" and d: "1 + 1 / rho \<noteq> 0"
    by (simp_all add: add_pos_pos less_imp_neq [THEN not_sym])
  have len: "length (data x_obs) = length (data x0)"
    using assms(2-4) by (simp add: wf_array_def)
  have "map2 (\<lambda>a b. true_divide (a + b / rho) (1 + 1 / rho)) (data x0) (data x_obs) = map Finite ?r"
    using d by (simp add: true_divide_def split_def)
  then have val: "squared_error x0 rho x_obs = Inr \<lparr>shape = shape x0, data = map Finite ?r\<rparr>"
    by (simp add: squared_error_same_shape [OF ne assms(2-4)])
  have "sq_objective rho (data x0) (data x_obs) ?r \<le> sq_objective rho (data x0) (data x_obs) x"
    if "length x = length ?r" for x
  proof -
    from that len have lx: "length x = length (data x0)" by simp
    have "0 \<le> ((1 + rho) / 2) * sqdist x ?r"
      using assms(1) sqdist_nonneg by (intro mult_nonneg_nonneg) simp_all
    with sq_objective_split [OF assms(1) lx len [symmetric]] show ?thesis by simp
  qed
  with val show ?thesis by blast
qed

theorem squared_error_closed_form_witness:
  "(0::real) < 1 \<and>
   squared_error \<lparr>shape = [1], data = [1]\<rparr> 1 \<lparr>shape = [1], data = [3]\<rparr>
     = Inr \<lparr>shape = [1], data = [Finite 2]\<rparr> \<and>
   sq_objective 1 [1] [3] [2] \<le> sq_objective 1 [1] [3] [5]"
proof -
  let ?x0 = "\<lparr>shape = [1], data = [1 :: real]\<rparr>" and ?xo = "\<lparr>shape = [1], data = [3 :: real]\<rparr>"
  have "wf_array ?x0" and "wf_array ?xo" and "shape ?xo = shape ?x0"
    by (simp_all add: wf_array_def)
  from squared_error_closed_form [OF _ this, of 1]
  obtain r where r: "r = [2 :: real]"
    and v: "squared_error ?x0 1 ?xo = Inr \<lparr>shape = [1], data = map Finite r\<rparr>"
    and m: "\<forall>x. length x = length r \<longrightarrow> sq_objective 1 [1] [3] r \<le> sq_objective 1 [1] [3] x"
    by auto
  from m r have "sq_objective 1 [1] [3] [2] \<le> sq_objective 1 [1] [3] [5]"
    by simp
  with v r show ?thesis by simp
qed

text \<open>
  C10, as amended. For \<open>rho\<close> other than 0 and -1 and arrays of one shape, swapping
  \<open>x0\<close> with \<open>x_obs\<close> and \<open>rho\<close> with \<open>1 / rho\<close> does not change the result of
  \<open>squared_error\<close>.
\<close>

theorem squared_error_duality:
  assumes "rho \<noteq> 0" and "rho \<noteq> - 1"
    and "wf_array x0" and "wf_array x_obs" and "shape x_obs = shape x0"
  shows "squared_error x0 rho x_obs = squared_error x_obs (1 / rho) x0"
proof -
  have inv: "1 / rho \<noteq> 0" using assms(1) by simp
  have d: "1 + 1 / rho \<noteq> 0"
  proof
    assume "1 + 1 / rho = 0"
    then have "1 / rho = - 1" by simp
    with assms(1) have "rho = - 1" by (simp add: field_simps)
    with assms(2) show False by simp
  qed
  have d': "1 + rho \<noteq> 0"
    using assms(2) by (simp add: add_eq_0_iff)
  have pt: "true_divide (a + b / rho) (1 + 1 / rho) = true_divide (b + a / (1 / rho)) (1 + 1 / (1 / rho))"
    for a b
    using d d' shrink_quotient [OF assms(1), of a b]
    by (simp add: true_divide_def algebra_simps)
  have "map2 (\<lambda>a b. true_divide (a + b / rho) (1 + 1 / rho)) (data x0) (data x_obs)
      = map2 (\<lambda>b a. true_divide (b + a / (1 / rho)) (1 + 1 / (1 / rho))) (data x_obs) (data x0)"
    by (subst zip_commute) (simp add: split_def pt)
  then show ?thesis
    by (simp add: squared_error_same_shape [OF assms(1,3-5)]
        squared_error_same_shape [OF inv assms(4,3) assms(5) [symmetric]] assms(5))
qed

theorem squared_error_duality_witness:
  "(2::real) \<noteq> 0 \<and>
   squared_error \<lparr>shape = [1], data = [1]\<rparr> 2 \<lparr>shape = [1], data = [3]\<rparr>
     = squared_error \<lparr>shape = [1], data = [3]\<rparr> (1 / 2) \<lparr>shape = [1], data = [1]\<rparr>"
  using squared_error_duality [of 2 "\<lparr>shape = [1], data = [1]\<rparr>" "\<lparr>shape = [1], data = [3]\<rparr>"]
  by (simp add: wf_array_def)

text \<open>
  C10 as stated fails at the non-zero \<open>rho = -1\<close>, where \<open>1 + 1 / rho\<close> is zero:
  with \<open>x0 = [1]\<close> and \<open>x_obs = [0]\<close> one side divides 1 by zero and the other
  side divides -1 by zero.
\<close>

theorem squared_error_duality_fails:
  "squared_error \<lparr>shape = [1], data = [1]\<rparr> (- 1) \<lparr>shape = [1], data = [0]\<rparr>
     = Inr \<lparr>shape = [1], data = [PosInf]\<rparr> \<and>
   squared_error \<lparr>shape = [1], data = [0]\<rparr> (1 / (- 1)) \<lparr>shape = [1], data = [1]\<rparr>
     = Inr \<lparr>shape = [1], data = [NegInf]\<rparr> \<and>
   squared_error \<lparr>shape = [1], data = [1]\<rparr> (- 1) \<lparr>shape = [1], data = [0]\<rparr>
     \<noteq> squared_error \<lparr>shape = [1], data = [0]\<rparr> (1 / (- 1)) \<lparr>shape = [1], data = [1]\<rparr>"
  by (simp add: squared_error_same_shape wf_array_def true_divide_def)

section \<open>Entries of matrices and vectors\<close>

lemma length_concat_rows: "length (concat (map (\<lambda>i. map (f i) [0..<n]) [0..<m])) = m * n"
  by (induction m) simp_all

lemma concat_rows_nth:
  "k < m * n \<Longrightarrow> concat (map (\<lambda>i. map (f i) [0..<n]) [0..<m]) ! k = f (k div n) (k mod n)"
proof (induction m)
  case 0
  then show ?case by simp
next
  case (Suc m)
  show ?case
  proof (cases "k < m * n")
    case True
    with Suc.IH show ?thesis
      by (simp add: nth_append length_concat_rows)
  next
    case False
    with Suc.prems have k: "m * n \<le> k" "k - m * n < n" by simp_all
    define r where "r = k - m * n"
    with k have r: "k = m * n + r" "r < n" by simp_all
    then have "k div n = m" "k mod n = r"
      by simp_all
    with r show ?thesis
      by (simp add: nth_append length_concat_rows)
  qed
qed

lemma wf_matrix_of: "wf_array (matrix_of m n f)"
  by (simp add: wf_array_def matrix_of_def length_concat_rows)

lemma shape_matrix_of: "shape (matrix_of m n f) = [m, n]"
  by (simp add: matrix_of_def)

lemma at2_matrix_of:
  assumes "i < m" and "j < n"
  shows "at2 (matrix_of m n f) i j = f i j"
proof -
  have "i * n + j < m * n"
  proof -
    have "i * n + j < Suc i * n" using assms(2) by simp
    also have "\<dots> \<le> m * n" using assms(1) by (intro mult_le_mono1) simp
    finally show ?thesis .
  qed
  moreover have "(i * n + j) div n = i" "(i * n + j) mod n = j"
    using assms(2) by simp_all
  ultimately show ?thesis
    by (simp add: at2_def matrix_of_def concat_rows_nth)
qed

lemma matrix_of_cong:
  assumes "\<And>i j. i < m \<Longrightarrow> j < n \<Longrightarrow> f i j = g i j"
  shows "matrix_of m n f = matrix_of m n g"
proof -
  have "map (\<lambda>i. map (f i) [0..<n]) [0..<m] = map (\<lambda>i. map (g i) [0..<n]) [0..<m]"
    by (rule map_cong [OF refl], rule map_cong [OF refl]) (simp add: assms)
  then show ?thesis by (simp only: matrix_of_def)
qed

lemma matrix_of_at2:
  assumes "shape a = [m, n]" and "wf_array a"
  shows "a = matrix_of m n (at2 a)"
proof -
  have len: "length (data a) = m * n"
    using assms by (simp add: wf_array_def)
  have "data a = concat (map (\<lambda>i. map (at2 a i) [0..<n]) [0..<m])"
  proof (rule nth_equalityI)
    show "length (data a) = length (concat (map (\<lambda>i. map (at2 a i) [0..<n]) [0..<m]))"
      by (simp add: len length_concat_rows)
  next
    fix k assume "k < length (data a)"
    with len have "k < m * n" by simp
    then show "data a ! k = concat (map (\<lambda>i. map (at2 a i) [0..<n]) [0..<m]) ! k"
      using assms(1) by (simp add: concat_rows_nth at2_def)
  qed
  with assms(1) show ?thesis
    by (simp add: matrix_of_def)
qed

lemma amap_matrix_of: "amap g (matrix_of m n f) = matrix_of m n (\<lambda>i j. g (f i j))"
  by (simp add: amap_def matrix_of_def map_concat comp_def)

lemma map2_concat_rows:
  "map2 h (concat (map (\<lambda>i. map (f i) [0..<n]) [0..<m])) (concat (map (\<lambda>i. map (g i) [0..<n]) [0..<m]))
   = concat (map (\<lambda>i. map (\<lambda>j. h (f i j) (g i j)) [0..<n]) [0..<m])"
proof (rule nth_equalityI)
  show "length (map2 h (concat (map (\<lambda>i. map (f i) [0..<n]) [0..<m])) (concat (map (\<lambda>i. map (g i) [0..<n]) [0..<m])))
      = length (concat (map (\<lambda>i. map (\<lambda>j. h (f i j) (g i j)) [0..<n]) [0..<m]))"
    by (simp add: length_concat_rows)
next
  fix k
  assume "k < length (map2 h (concat (map (\<lambda>i. map (f i) [0..<n]) [0..<m])) (concat (map (\<lambda>i. map (g i) [0..<n]) [0..<m])))"
  then have "k < m * n" by (simp add: length_concat_rows)
  then show "map2 h (concat (map (\<lambda>i. map (f i) [0..<n]) [0..<m])) (concat (map (\<lambda>i. map (g i) [0..<n]) [0..<m])) ! k
      = concat (map (\<lambda>i. map (\<lambda>j. h (f i j) (g i j)) [0..<n]) [0..<m]) ! k"
    by (simp add: length_concat_rows concat_rows_nth)
qed

lemma np_binop_matrix_of:
  "np_binop h (matrix_of m n f) (matrix_of m n g) = Inr (matrix_of m n (\<lambda>i j. h (f i j) (g i j)))"
proof -
  have "np_binop h (matrix_of m n f) (matrix_of m n g)
      = Inr \<lparr>shape = shape (matrix_of m n f),
             data = map2 h (data (matrix_of m n f)) (data (matrix_of m n g))\<rparr>"
    by (rule np_binop_same_shape) (simp_all add: wf_matrix_of shape_matrix_of)
  then show ?thesis
    by (simp add: matrix_of_def map2_concat_rows)
qed

lemma wf_vector_of: "wf_array (vector_of n f)"
  by (simp add: wf_array_def vector_of_def)

lemma vector_of_at1:
  assumes "shape a = [n]" and "wf_array a"
  shows "a = vector_of n (at1 a)"
proof -
  have "length (data a) = n" using assms by (simp add: wf_array_def)
  then have "data a = map (at1 a) [0..<n]"
    by (auto simp: at1_def intro: nth_equalityI)
  with assms(1) show ?thesis by (simp add: vector_of_def)
qed

lemma at1_vector_of: "i < n \<Longrightarrow> at1 (vector_of n f) i = f i"
  by (simp add: at1_def vector_of_def)

lemma amap_vector_of: "amap g (vector_of n f) = vector_of n (\<lambda>i. g (f i))"
  by (simp add: amap_def vector_of_def)

lemma np_binop_vector_of:
  "np_binop h (vector_of n f) (vector_of n g) = Inr (vector_of n (\<lambda>i. h (f i) (g i)))"
proof -
  have "np_binop h (vector_of n f) (vector_of n g)
      = Inr \<lparr>shape = shape (vector_of n f),
             data = map2 h (data (vector_of n f)) (data (vector_of n g))\<rparr>"
    by (rule np_binop_same_shape) (simp_all add: wf_vector_of, simp add: vector_of_def)
  then show ?thesis
    by (simp add: vector_of_def zip_map_map zip_same_conv_map)
qed

lemma dsum_cong:
  assumes "\<And>l. l < k \<Longrightarrow> f l = g l"
  shows "dsum k f = dsum k g"
proof -
  have "map f [0..<k] = map g [0..<k]"
    by (rule map_cong [OF refl]) (simp add: assms)
  then show ?thesis by (simp only: dsum_def)
qed

section \<open>The linear-system operators\<close>

lemma linsys_system:
  assumes "shape x0 = [n]" and "wf_array x0" and "shape q = [n]" and "wf_array q"
    and "shape P = [n, n]" and "wf_array P"
  shows "linsys solve x0 rho P q =
           solve (matrix_of n n (\<lambda>i j. rho * (if i = j then 1 else 0) + at2 P i j))
                 (vector_of n (\<lambda>i. rho * at1 x0 i + at1 q i))"
proof -
  have P: "P = matrix_of n n (at2 P)" and x0: "x0 = vector_of n (at1 x0)" and q: "q = vector_of n (at1 q)"
    using assms by (simp_all add: matrix_of_at2 vector_of_at1)
  have size: "asize q = n"
    using assms(3) by (simp add: asize_def)
  have "np_binop (+) (amap ((*) rho) (eye (asize q))) P
      = np_binop (+) (matrix_of n n (\<lambda>i j. rho * (if i = j then 1 else 0))) (matrix_of n n (at2 P))"
    using P by (simp add: size eye_def amap_matrix_of)
  then have a: "np_binop (+) (amap ((*) rho) (eye (asize q))) P
      = Inr (matrix_of n n (\<lambda>i j. rho * (if i = j then 1 else 0) + at2 P i j))"
    by (simp only: np_binop_matrix_of)
  have "np_binop (+) (amap ((*) rho) x0) q
      = np_binop (+) (vector_of n (\<lambda>i. rho * at1 x0 i)) (vector_of n (at1 q))"
    using x0 q by (metis amap_vector_of)
  then have b: "np_binop (+) (amap ((*) rho) x0) q = Inr (vector_of n (\<lambda>i. rho * at1 x0 i + at1 q i))"
    by (simp only: np_binop_vector_of)
  show ?thesis
    by (simp add: linsys_def a b)
qed

text \<open>
  C6. For a vector \<open>x0\<close> and a vector \<open>q\<close> of length \<open>n\<close> and an \<open>n\<close> by \<open>n\<close>
  matrix \<open>P\<close>, \<open>linsys\<close> hands the library solver the matrix \<open>rho * I + P\<close> and
  the right-hand side \<open>rho * x0 + q\<close>. So with a solver that keeps the promise of
  \<^verbatim>\<open>np.linalg.solve\<close> on this system, \<open>linsys\<close> fails with LinAlgError when
  \<open>rho * I + P\<close> is singular and otherwise returns a vector \<open>x\<close> with
  \<open>(rho * I + P) x = rho * x0 + q\<close>.
\<close>

theorem linsys_solves_system:
  assumes "shape x0 = [n]" and "wf_array x0" and "shape q = [n]" and "wf_array q"
    and "shape P = [n, n]" and "wf_array P"
    and "linalg_solve_contract solve
           (matrix_of n n (\<lambda>i j. rho * (if i = j then 1 else 0) + at2 P i j))
           (vector_of n (\<lambda>i. rho * at1 x0 i + at1 q i))"
  shows "if singular (matrix_of n n (\<lambda>i j. rho * (if i = j then 1 else 0) + at2 P i j))
         then linsys solve x0 rho P q = Inl LinAlgError
         else (\<exists>x. linsys solve x0 rho P q = Inr x \<and> shape x = [n] \<and> wf_array x \<and>
                 (\<forall>i < n. dsum n (\<lambda>j. (rho * (if i = j then 1 else 0) + at2 P i j) * at1 x j)
                            = rho * at1 x0 i + at1 q i))"
proof -
  let ?a = "matrix_of n n (\<lambda>i j. rho * (if i = j then 1 else 0) + at2 P i j)"
  let ?b = "vector_of n (\<lambda>i. rho * at1 x0 i + at1 q i)"
  have run: "linsys solve x0 rho P q = solve ?a ?b"
    by (rule linsys_system [OF assms(1-6)])
  have size: "asize ?b = n" and shape: "shape ?b = [n]"
    by (simp_all add: asize_def vector_of_def)
  show ?thesis
  proof (cases "solve ?a ?b")
    case (Inl e)
    with assms(7) show ?thesis
      by (simp add: run linalg_solve_contract_def)
  next
    case (Inr x)
    with assms(7) have ns: "\<not> singular ?a" and sol: "solves ?a ?b x"
      by (simp_all add: linalg_solve_contract_def)
    from sol have "shape x = [n]" and "wf_array x"
      and eq: "\<forall>i < n. dsum n (\<lambda>j. at2 ?a i j * at1 x j) = at1 ?b i"
      by (simp_all add: solves_def size shape)
    moreover have "dsum n (\<lambda>j. (rho * (if i = j then 1 else 0) + at2 P i j) * at1 x j)
        = rho * at1 x0 i + at1 q i" if "i < n" for i
    proof -
      have "map (\<lambda>j. (rho * (if i = j then 1 else 0) + at2 P i j) * at1 x j) [0..<n]
          = map (\<lambda>j. at2 ?a i j * at1 x j) [0..<n]"
        by (rule map_cong [OF refl]) (simp add: at2_matrix_of that)
      then have "dsum n (\<lambda>j. (rho * (if i = j then 1 else 0) + at2 P i j) * at1 x j)
          = dsum n (\<lambda>j. at2 ?a i j * at1 x j)"
        by (simp only: dsum_def)
      with eq that show ?thesis
        by (simp add: at1_vector_of)
    qed
    ultimately show ?thesis
      using ns Inr by (simp add: run)
  qed
qed

theorem linsys_solves_system_witness:
  "linsys cramer \<lparr>shape = [2], data = [1, 1]\<rparr> 1 \<lparr>shape = [2, 2], data = [1, 1, 0, 2]\<rparr>
       \<lparr>shape = [2], data = [1, 2]\<rparr> = Inr \<lparr>shape = [2], data = [1 / 2, 1]\<rparr>
   \<and> linsys cramer \<lparr>shape = [2], data = [1, 1]\<rparr> 1 \<lparr>shape = [2, 2], data = [- 1, 0, 0, - 1]\<rparr>
       \<lparr>shape = [2], data = [1, 2]\<rparr> = Inl LinAlgError"
proof -
  let ?start = "\<lparr>shape = [2], data = [1, 1 :: real]\<rparr>" and ?q = "\<lparr>shape = [2], data = [1, 2 :: real]\<rparr>"
  let ?P = "\<lparr>shape = [2, 2], data = [1, 1, 0, 2 :: real]\<rparr>"
  let ?P' = "\<lparr>shape = [2, 2], data = [- 1, 0, 0, - 1 :: real]\<rparr>"
  let ?a = "\<lambda>P. matrix_of 2 2 (\<lambda>i j. 1 * (if i = j then 1 else 0) + at2 P i j)"
  let ?b = "vector_of 2 (\<lambda>i. 1 * at1 ?start i + at1 ?q i)"
  have wf: "shape ?start = [2]" "wf_array ?start" "shape ?q = [2]" "wf_array ?q"
    "shape ?P = [2, 2]" "wf_array ?P" "shape ?P' = [2, 2]" "wf_array ?P'"
    by (simp_all add: wf_array_def)
  have c: "linalg_solve_contract cramer (?a ?P) ?b" and c': "linalg_solve_contract cramer (?a ?P') ?b"
    by code_simp+
  have ns: "\<not> singular (?a ?P)" and s: "singular (?a ?P')"
    by code_simp+
  from linsys_solves_system [OF wf(1-6) c] ns
  obtain x where x: "linsys cramer ?start 1 ?P ?q = Inr x"
    by auto
  have "linsys cramer ?start 1 ?P ?q = Inr \<lparr>shape = [2], data = [1 / 2, 1]\<rparr>"
    by code_simp
  moreover from linsys_solves_system [OF wf(1-4) wf(7,8) c'] s
  have "linsys cramer ?start 1 ?P' ?q = Inl LinAlgError"
    by simp
  ultimately show ?thesis using x by simp
qed

lemma spdiags_tridiagonal:
  "spdiags [amap ((*) d) (ones n), amap ((*) (- 1)) (ones n), amap ((*) (- 1)) (ones n)] [0, - 1, 1] n n
   = matrix_of n n (\<lambda>i j. if i = j then d else if i = Suc j \<or> j = Suc i then - 1 else 0)"
  unfolding spdiags_def
  by (rule matrix_of_cong) (auto simp: amap_def ones_def)

lemma smooth_system:
  assumes "shape x0 = [n]" and "wf_array x0" and "gamma \<noteq> 0"
  shows "smooth spsolve x0 rho gamma =
           spsolve (matrix_of n n (\<lambda>i j. gamma * (if i = j then 2 + rho / gamma
                                                    else if i = Suc j \<or> j = Suc i then - 1 else 0)))
                   (vector_of n (\<lambda>i. rho * at1 x0 i))"
proof -
  have "x0 = vector_of n (at1 x0)"
    using assms(1,2) by (rule vector_of_at1)
  then have "amap ((*) rho) x0 = vector_of n (\<lambda>i. rho * at1 x0 i)"
    by (metis amap_vector_of)
  then show ?thesis
    using assms(1,3) by (simp add: smooth_def spdiags_tridiagonal amap_matrix_of)
qed

text \<open>
  The matrix of \<open>smooth\<close> is strictly diagonally dominant for positive \<open>rho\<close> and
  \<open>gamma\<close>, so its system has at most one solution.
\<close>

lemma dsum_sum: "dsum n f = (\<Sum>j = 0..<n. f j)"
  by (simp add: dsum_def interv_sum_list_conv_sum_set_nat)

lemma tridiagonal_row:
  assumes "i < n"
  shows "dsum n (\<lambda>j. (if i = j then d else if i = Suc j \<or> j = Suc i then - 1 else 0) * z j)
       = d * z i - (if 0 < i then z (i - 1) else 0) - (if Suc i < n then z (Suc i) else 0)"
proof -
  have split: "(if i = j then d else if i = Suc j \<or> j = Suc i then - 1 else 0) * z j
      = (if j = i then d * z j else 0) + (if j = i - 1 \<and> 0 < i then - z j else 0)
        + (if j = Suc i then - z j else 0)" for j
    by auto
  have "(\<Sum>j = 0..<n. if j = i - 1 \<and> 0 < i then - z j else 0)
      = (if 0 < i then (\<Sum>j = 0..<n. if j = i - 1 then - z j else 0) else 0)"
    by simp
  also have "\<dots> = (if 0 < i then - z (i - 1) else 0)"
  proof -
    have "i - 1 < n" using assms by simp
    then show ?thesis by (simp add: sum.delta)
  qed
  finally have low: "(\<Sum>j = 0..<n. if j = i - 1 \<and> 0 < i then - z j else 0)
      = (if 0 < i then - z (i - 1) else 0)" .
  show ?thesis
    unfolding dsum_sum split sum.distrib low
    using assms by (simp add: sum.delta)
qed

lemma dominant_kernel:
  fixes z :: "nat \<Rightarrow> real"
  assumes "2 < d"
    and "\<And>i. i < n \<Longrightarrow> dsum n (\<lambda>j. (if i = j then d else if i = Suc j \<or> j = Suc i then - 1 else 0) * z j) = 0"
    and "i < n"
  shows "z i = 0"
proof -
  from assms(3) have ne: "(\<lambda>j. \<bar>z j\<bar>) ` {0..<n} \<noteq> {}" by auto
  define M where "M = Max ((\<lambda>j. \<bar>z j\<bar>) ` {0..<n})"
  have fin: "finite ((\<lambda>j. \<bar>z j\<bar>) ` {0..<n})" by simp
  from Max_in [OF fin ne] obtain p where p: "p < n" "\<bar>z p\<bar> = M"
    unfolding M_def by auto
  have le: "\<bar>z j\<bar> \<le> M" if "j < n" for j
    unfolding M_def using that by (intro Max_ge) auto
  from assms(2) [OF p(1)] tridiagonal_row [OF p(1), of d z]
  have "d * z p = (if 0 < p then z (p - 1) else 0) + (if Suc p < n then z (Suc p) else 0)"
    by simp
  then have "\<bar>d * z p\<bar> \<le> \<bar>if 0 < p then z (p - 1) else 0\<bar> + \<bar>if Suc p < n then z (Suc p) else 0\<bar>"
    by (simp add: abs_triangle_ineq)
  also have "\<bar>if 0 < p then z (p - 1) else 0\<bar> \<le> M"
    using le [of "p - 1"] p by (auto intro: order_trans [OF _ le [OF p(1)]])
  also have "\<bar>if Suc p < n then z (Suc p) else 0\<bar> \<le> M"
    using le [of "Suc p"] p by (auto intro: order_trans [OF _ le [OF p(1)]])
  finally have "\<bar>d * z p\<bar> \<le> 2 * M" by simp
  with assms(1) p have "d * M \<le> 2 * M"
    by (simp add: abs_mult)
  moreover have "0 \<le> M" using p by auto
  ultimately have "M = 0"
  proof -
    assume dm: "d * M \<le> 2 * M" and m: "0 \<le> M"
    from dm have "(d - 2) * M \<le> 0" by (simp add: algebra_simps)
    with assms(1) have "M \<le> 0" by (simp add: mult_le_0_iff)
    with m show ?thesis by simp
  qed
  with le [OF assms(3)] show ?thesis by simp
qed


lemma dsum_diff: "dsum n (\<lambda>j. f j - g j) = dsum n f - dsum n g"
  by (simp add: dsum_sum sum_subtractf)

lemma dsum_scale: "dsum n (\<lambda>j. c * f j) = c * dsum n f"
  by (simp add: dsum_sum sum_distrib_left)

lemma smooth_solution_unique:
  assumes "0 < rho" and "0 < gamma"
    and "solves (matrix_of n n (\<lambda>i j. gamma * (if i = j then 2 + rho / gamma
                                                  else if i = Suc j \<or> j = Suc i then - 1 else 0)))
                (vector_of n b) x"
    and "solves (matrix_of n n (\<lambda>i j. gamma * (if i = j then 2 + rho / gamma
                                                  else if i = Suc j \<or> j = Suc i then - 1 else 0)))
                (vector_of n b) y"
  shows "x = y"
proof -
  let ?l = "\<lambda>i j. if i = j then 2 + rho / gamma else if i = Suc j \<or> j = Suc i then - 1 else (0 :: real)"
  let ?a = "matrix_of n n (\<lambda>i j. gamma * ?l i j)"
  have size: "asize (vector_of n b) = n" and shape: "shape (vector_of n b) = [n]"
    by (simp_all add: asize_def vector_of_def)
  have row: "gamma * dsum n (\<lambda>j. ?l i j * at1 v j) = at1 (vector_of n b) i"
    if "solves ?a (vector_of n b) v" and "i < n" for v i
  proof -
    have "dsum n (\<lambda>j. at2 ?a i j * at1 v j) = dsum n (\<lambda>j. gamma * (?l i j * at1 v j))"
      by (rule dsum_cong) (simp add: at2_matrix_of that(2))
    with that show ?thesis
      by (simp add: solves_def size dsum_scale)
  qed
  define z where "z j = at1 x j - at1 y j" for j
  have ker: "dsum n (\<lambda>j. ?l i j * z j) = 0" if "i < n" for i
  proof -
    have "gamma * dsum n (\<lambda>j. ?l i j * z j)
        = gamma * dsum n (\<lambda>j. ?l i j * at1 x j) - gamma * dsum n (\<lambda>j. ?l i j * at1 y j)"
      unfolding z_def by (simp add: right_diff_distrib dsum_diff)
    also have "\<dots> = 0"
      using row [OF assms(3) that] row [OF assms(4) that] by simp
    finally show ?thesis using assms(2) by simp
  qed
  have dom: "2 < 2 + rho / gamma"
    using assms(1,2) by simp
  have zero: "z i = 0" if "i < n" for i
    using dom ker that by (rule dominant_kernel)
  from assms(3,4) have sx: "shape x = [n]" "length (data x) = n" and sy: "shape y = [n]" "length (data y) = n"
    by (simp_all add: solves_def shape wf_array_def)
  have "data x = data y"
  proof (rule nth_equalityI)
    show "length (data x) = length (data y)" using sx sy by simp
  next
    fix i assume "i < length (data x)"
    with sx have "i < n" by simp
    from zero [OF this] show "data x ! i = data y ! i"
      by (simp add: z_def at1_def)
  qed
  with sx sy show ?thesis by simp
qed

text \<open>
  C7. For a vector \<open>x0\<close> of length \<open>n\<close> and positive \<open>rho\<close> and \<open>gamma\<close>,
  \<open>smooth\<close> hands the sparse solver \<open>gamma\<close> times the \<open>n\<close> by \<open>n\<close> matrix \<open>L\<close>
  with \<open>2 + rho / gamma\<close> on the diagonal, -1 on the first diagonal below and above
  it and 0 elsewhere, and the right-hand side \<open>rho * x0\<close>. So when the solver
  returns a solution \<open>x\<close> of that system, \<open>smooth\<close> returns \<open>x\<close>,
  \<open>gamma * L x = rho * x0\<close>, and \<open>x\<close> is the only solution.
\<close>

theorem smooth_solves_system:
  assumes "shape x0 = [n]" and "wf_array x0" and "0 < rho" and "0 < gamma"
    and "spsolve (matrix_of n n (\<lambda>i j. gamma * (if i = j then 2 + rho / gamma
                                                   else if i = Suc j \<or> j = Suc i then - 1 else 0)))
                 (vector_of n (\<lambda>i. rho * at1 x0 i)) = Inr x"
    and "solves (matrix_of n n (\<lambda>i j. gamma * (if i = j then 2 + rho / gamma
                                                  else if i = Suc j \<or> j = Suc i then - 1 else 0)))
                (vector_of n (\<lambda>i. rho * at1 x0 i)) x"
  shows "smooth spsolve x0 rho gamma = Inr x \<and> shape x = [n] \<and>
         (\<forall>i < n. gamma * dsum n (\<lambda>j. (if i = j then 2 + rho / gamma
                                        else if i = Suc j \<or> j = Suc i then - 1 else 0) * at1 x j)
                    = rho * at1 x0 i) \<and>
         (\<forall>y. solves (matrix_of n n (\<lambda>i j. gamma * (if i = j then 2 + rho / gamma
                                                       else if i = Suc j \<or> j = Suc i then - 1 else 0)))
                     (vector_of n (\<lambda>i. rho * at1 x0 i)) y \<longrightarrow> y = x)"
proof -
  let ?l = "\<lambda>i j. if i = j then 2 + rho / gamma else if i = Suc j \<or> j = Suc i then - 1 else (0 :: real)"
  let ?a = "matrix_of n n (\<lambda>i j. gamma * ?l i j)"
  let ?b = "vector_of n (\<lambda>i. rho * at1 x0 i)"
  from assms(4) have g: "gamma \<noteq> 0" by simp
  have run: "smooth spsolve x0 rho gamma = Inr x"
    using smooth_system [OF assms(1,2) g] assms(5) by simp
  have size: "asize ?b = n" and shape: "shape ?b = [n]"
    by (simp_all add: asize_def vector_of_def)
  from assms(6) have sh: "shape x = [n]"
    and eq: "\<forall>i < n. dsum n (\<lambda>j. at2 ?a i j * at1 x j) = at1 ?b i"
    by (simp_all add: solves_def size shape)
  have "gamma * dsum n (\<lambda>j. ?l i j * at1 x j) = rho * at1 x0 i" if "i < n" for i
  proof -
    have "map (\<lambda>j. gamma * (?l i j * at1 x j)) [0..<n] = map (\<lambda>j. at2 ?a i j * at1 x j) [0..<n]"
      by (rule map_cong [OF refl]) (simp add: at2_matrix_of that)
    then have "gamma * dsum n (\<lambda>j. ?l i j * at1 x j) = dsum n (\<lambda>j. at2 ?a i j * at1 x j)"
      by (simp only: dsum_def sum_list_const_mult [symmetric])
    with eq that show ?thesis
      by (simp add: at1_vector_of)
  qed
  moreover have "y = x" if "solves ?a ?b y" for y
    using assms(3,4) that assms(6) by (rule smooth_solution_unique)
  ultimately show ?thesis
    using run sh by blast
qed

theorem smooth_solves_system_witness:
  "smooth cramer \<lparr>shape = [3], data = [1, 0, 1]\<rparr> 1 2 = Inr \<lparr>shape = [3], data = [5 / 17, 4 / 17, 5 / 17]\<rparr>"
proof -
  let ?start = "\<lparr>shape = [3], data = [1, 0, 1 :: real]\<rparr>"
  let ?sol = "\<lparr>shape = [3], data = [5 / 17, 4 / 17, 5 / 17 :: real]\<rparr>"
  let ?a = "matrix_of 3 3 (\<lambda>i j. 2 * (if i = j then 2 + 1 / 2
                                      else if i = Suc j \<or> j = Suc i then - 1 else (0 :: real)))"
  let ?b = "vector_of 3 (\<lambda>i. 1 * at1 ?start i)"
  have 1: "shape ?start = [3]" and 2: "wf_array ?start" and 3: "(0 :: real) < 1" and 4: "(0 :: real) < 2"
    by (simp_all add: wf_array_def)
  have 5: "cramer ?a ?b = Inr ?sol"
    by code_simp
  have 6: "solves ?a ?b ?sol"
    by code_simp
  from smooth_solves_system [where spsolve = cramer and rho = 1 and gamma = 2, OF 1 2 3 4 5 6]
  show ?thesis by simp
qed

section \<open>Nuclear-norm shrinkage\<close>

lemma dsum_delta:
  assumes "l < k"
  shows "dsum k (\<lambda>p. f p * (if p = l then g p else 0)) = f l * g l"
proof -
  have "dsum k (\<lambda>p. f p * (if p = l then g p else 0))
      = (\<Sum>p \<in> {0..<k}. if p = l then f p * g p else 0)"
    by (simp add: dsum_def interv_sum_list_conv_sum_set_nat if_distrib [of "(*) _"] cong: if_cong)
  also have "\<dots> = f l * g l"
    using assms by (simp add: sum.delta)
  finally show ?thesis .
qed

lemma data_matrix_of_nth:
  assumes "i < m" and "j < n"
  shows "data (matrix_of m n f) ! (i * n + j) = f i j"
  using at2_matrix_of [OF assms, of f] by (simp add: at2_def matrix_of_def)

lemma dot_matrix_of:
  "dot (matrix_of m k f) (matrix_of k n g) = Inr (matrix_of m n (\<lambda>i j. dsum k (\<lambda>l. f i l * g l j)))"
proof -
  let ?a = "matrix_of m k f" and ?b = "matrix_of k n g"
  have "dot ?a ?b
      = Inr (matrix_of m n (\<lambda>i j. dsum k (\<lambda>l. data ?a ! (i * k + l) * data ?b ! (l * n + j))))"
    by (simp add: dot_def shape_matrix_of matrix_of_def)
  also have "matrix_of m n (\<lambda>i j. dsum k (\<lambda>l. data ?a ! (i * k + l) * data ?b ! (l * n + j)))
      = matrix_of m n (\<lambda>i j. dsum k (\<lambda>l. f i l * g l j))"
    by (intro matrix_of_cong dsum_cong) (simp add: data_matrix_of_nth)
  finally show ?thesis .
qed

lemma np_diag_vector_of:
  "np_diag (vector_of k f) = Inr (matrix_of k k (\<lambda>i j. if i = j then f i else 0))"
proof -
  have "matrix_of k k (\<lambda>i j. if i = j then at1 (vector_of k f) i else 0)
      = matrix_of k k (\<lambda>i j. if i = j then f i else 0)"
    by (rule matrix_of_cong) (simp add: at1_vector_of)
  moreover have "shape (vector_of k f) = [k]"
    by (simp add: vector_of_def)
  ultimately show ?thesis
    by (simp add: np_diag_def)
qed

lemma nucnorm_entries:
  assumes "svd x0 = Inr (u, s, vh)"
    and "shape u = [m, k]" and "wf_array u"
    and "shape s = [k]" and "wf_array s"
    and "shape vh = [k, n]" and "wf_array vh"
    and "rho \<noteq> 0"
  shows "nucnorm svd x0 rho gamma =
           Inr (matrix_of m n
                  (\<lambda>i j. dsum k (\<lambda>l. at2 u i l * max (at1 s l - gamma / rho) 0 * at2 vh l j)))"
proof -
  let ?t = "\<lambda>l. max (at1 s l - gamma / rho) 0"
  have u: "u = matrix_of m k (at2 u)" and s: "s = vector_of k (at1 s)"
    and vh: "vh = matrix_of k n (at2 vh)"
    using assms(2-7) by (simp_all add: matrix_of_at2 vector_of_at1)
  have "amap (\<lambda>x. max x 0) (amap (\<lambda>x. x - gamma / rho) (vector_of k (at1 s))) = vector_of k ?t"
    by (simp add: amap_vector_of)
  with s have sthr: "amap (\<lambda>x. max x 0) (amap (\<lambda>x. x - gamma / rho) s) = vector_of k ?t"
    by simp
  have d: "np_diag (vector_of k ?t) = Inr (matrix_of k k (\<lambda>i j. if i = j then ?t i else 0))"
    by (rule np_diag_vector_of)
  have "dot (matrix_of m k (at2 u)) (matrix_of k k (\<lambda>i j. if i = j then ?t i else 0))
      = Inr (matrix_of m k (\<lambda>i j. dsum k (\<lambda>l. at2 u i l * (if l = j then ?t l else 0))))"
    by (simp only: dot_matrix_of)
  also have "matrix_of m k (\<lambda>i j. dsum k (\<lambda>l. at2 u i l * (if l = j then ?t l else 0)))
      = matrix_of m k (\<lambda>i j. at2 u i j * ?t j)"
    by (rule matrix_of_cong) (simp add: dsum_delta)
  finally have "dot (matrix_of m k (at2 u)) (matrix_of k k (\<lambda>i j. if i = j then ?t i else 0))
      = Inr (matrix_of m k (\<lambda>i j. at2 u i j * ?t j))" .
  with u have ud: "dot u (matrix_of k k (\<lambda>i j. if i = j then ?t i else 0))
      = Inr (matrix_of m k (\<lambda>i j. at2 u i j * ?t j))"
    by simp
  have "dot (matrix_of m k (\<lambda>i j. at2 u i j * ?t j)) (matrix_of k n (at2 vh))
      = Inr (matrix_of m n (\<lambda>i j. dsum k (\<lambda>l. at2 u i l * ?t l * at2 vh l j)))"
    by (simp only: dot_matrix_of)
  with vh have udv: "dot (matrix_of m k (\<lambda>i j. at2 u i j * ?t j)) vh
      = Inr (matrix_of m n (\<lambda>i j. dsum k (\<lambda>l. at2 u i l * ?t l * at2 vh l j)))"
    by simp
  show ?thesis
    using assms(1,8) by (simp add: nucnorm_def sthr d ud udv)
qed

text \<open>
  C8. When the decomposition routine returns the factors \<open>u\<close> (\<open>m\<close> by \<open>k\<close>),
  \<open>s\<close> (\<open>k\<close> singular values) and \<open>vh\<close> (\<open>k\<close> by \<open>n\<close>, the transposed right
  singular vectors) for \<open>x0\<close>, \<open>nucnorm\<close> returns the \<open>m\<close> by \<open>n\<close> matrix
  \<open>u diag(s') vh\<close> with \<open>s' = max (s - gamma / rho) 0\<close>: its entry \<open>(i, j)\<close> is
  the sum over \<open>l\<close> of \<open>u i l * max (s l - gamma / rho) 0 * vh l j\<close>.
\<close>

theorem nucnorm_thresholds_singular_values:
  assumes "svd x0 = Inr (u, s, vh)"
    and "shape u = [m, k]" and "wf_array u"
    and "shape s = [k]" and "wf_array s"
    and "shape vh = [k, n]" and "wf_array vh"
    and "rho \<noteq> 0"
  shows "nucnorm svd x0 rho gamma =
           Inr (matrix_of m n
                  (\<lambda>i j. dsum k (\<lambda>l. at2 u i l * max (at1 s l - gamma / rho) 0 * at2 vh l j)))"
  using assms by (rule nucnorm_entries)

theorem nucnorm_thresholds_singular_values_witness:
  "nucnorm diag_svd \<lparr>shape = [2, 2], data = [3, 0, 0, 1]\<rparr> 1 2
     = Inr \<lparr>shape = [2, 2], data = [1, 0, 0, 0]\<rparr>"
proof -
  let ?m = "\<lparr>shape = [2, 2], data = [3, 0, 0, 1 :: real]\<rparr>"
  let ?s = "\<lparr>shape = [2], data = [3, 1 :: real]\<rparr>"
  have 1: "diag_svd ?m = Inr (eye 2, ?s, eye 2)"
    by code_simp
  have 2: "shape (eye 2) = [2, 2]" and 3: "wf_array (eye 2)"
    by (simp_all add: eye_def shape_matrix_of wf_matrix_of)
  have 4: "shape ?s = [2]" and 5: "wf_array ?s"
    by (simp_all add: wf_array_def)
  have 6: "(1 :: real) \<noteq> 0" by simp
  have "matrix_of 2 2 (\<lambda>i j. dsum 2 (\<lambda>l. at2 (eye 2) i l * max (at1 ?s l - 2 / 1) 0 * at2 (eye 2) l j))
      = \<lparr>shape = [2, 2], data = [1, 0, 0, 0]\<rparr>"
    by code_simp
  with nucnorm_thresholds_singular_values [where svd = diag_svd and gamma = 2, OF 1 2 3 4 5 2 3 6]
  show ?thesis by simp
qed

section \<open>The optimiser adapter\<close>

lemma unchanged_arrays_refl: "unchanged_arrays h h"
  by (simp add: unchanged_arrays_def)

lemma unchanged_arrays_trans:
  assumes "unchanged_arrays h1 h2" and "unchanged_arrays h2 h3"
  shows "unchanged_arrays h1 h3"
proof -
  from assms have le: "length (arrays h1) \<le> length (arrays h2)" "length (arrays h2) \<le> length (arrays h3)"
    and t: "take (length (arrays h1)) (arrays h2) = arrays h1"
      "take (length (arrays h2)) (arrays h3) = arrays h2"
    by (simp_all add: unchanged_arrays_def)
  have "take (length (arrays h1)) (arrays h3)
      = take (length (arrays h1)) (take (length (arrays h2)) (arrays h3))"
    using le by (simp add: min_def)
  with t have "take (length (arrays h1)) (arrays h3) = arrays h1"
    by simp
  with le show ?thesis
    by (simp add: unchanged_arrays_def)
qed

lemma unchanged_arrays_attribute:
  "unchanged_arrays h h' \<Longrightarrow> unchanged_arrays h (h'\<lparr>theta_admm_prev := v\<rparr>)"
  by (simp add: unchanged_arrays_def)

lemma unchanged_arrays_nth:
  assumes "unchanged_arrays h h'" and "a < length (arrays h)"
  shows "a < length (arrays h') \<and> arrays h' ! a = arrays h ! a"
proof -
  from assms(1) have le: "length (arrays h) \<le> length (arrays h')"
    and t: "take (length (arrays h)) (arrays h') = arrays h"
    by (simp_all add: unchanged_arrays_def)
  have "take (length (arrays h)) (arrays h') ! a = arrays h' ! a"
    using assms(2) by simp
  then have "arrays h' ! a = arrays h ! a"
    by (simp only: t)
  with le assms(2) show ?thesis
    by simp
qed

lemma sfo_steps:
  "sfo x0 rho optimizer num_steps h =
     optimize optimizer num_steps
       ((snd (theta_original_to_flat optimizer x0 (set_theta optimizer x0 rho h)))
          \<lparr>theta_admm_prev := Some (fst (theta_original_to_flat optimizer x0 (set_theta optimizer x0 rho h)))\<rparr>)"
  by (simp add: sfo_def Let_def split_def)

lemma sfo_unchanged_arrays:
  assumes "keeps_arrays optimizer"
  shows "unchanged_arrays h (snd (sfo x0 rho optimizer num_steps h))"
proof -
  let ?h1 = "set_theta optimizer x0 rho h"
  let ?h2 = "snd (theta_original_to_flat optimizer x0 ?h1)"
  let ?h3 = "?h2\<lparr>theta_admm_prev := Some (fst (theta_original_to_flat optimizer x0 ?h1))\<rparr>"
  from assms have 1: "unchanged_arrays h ?h1" and 2: "unchanged_arrays ?h1 ?h2"
    and 3: "unchanged_arrays ?h3 (snd (optimize optimizer num_steps ?h3))"
    by (simp_all add: keeps_arrays_def)
  from 1 2 have "unchanged_arrays h ?h2"
    by (rule unchanged_arrays_trans)
  then have "unchanged_arrays h ?h3"
    by (rule unchanged_arrays_attribute)
  then have "unchanged_arrays h (snd (optimize optimizer num_steps ?h3))"
    using 3 by (rule unchanged_arrays_trans)
  then show ?thesis
    by (simp only: sfo_steps)
qed

lemma sfo_flat_attribute:
  assumes "keeps_arrays optimizer" and "converts_to_flat optimizer" and "x0 < length (arrays h)"
  shows "fst (theta_original_to_flat optimizer x0 (set_theta optimizer x0 rho h))
           < length (arrays (snd (theta_original_to_flat optimizer x0 (set_theta optimizer x0 rho h))))
         \<and> arrays (snd (theta_original_to_flat optimizer x0 (set_theta optimizer x0 rho h)))
             ! fst (theta_original_to_flat optimizer x0 (set_theta optimizer x0 rho h))
           = flatten (arrays h ! x0)"
proof -
  let ?h1 = "set_theta optimizer x0 rho h"
  from assms(1) have "unchanged_arrays h ?h1"
    by (simp add: keeps_arrays_def)
  from unchanged_arrays_nth [OF this assms(3)]
  have x: "x0 < length (arrays ?h1)" and same: "arrays ?h1 ! x0 = arrays h ! x0"
    by simp_all
  from assms(2) x
  have "fst (theta_original_to_flat optimizer x0 ?h1)
          < length (arrays (snd (theta_original_to_flat optimizer x0 ?h1)))
        \<and> arrays (snd (theta_original_to_flat optimizer x0 ?h1))
            ! fst (theta_original_to_flat optimizer x0 ?h1)
          = flatten (arrays ?h1 ! x0)"
    unfolding converts_to_flat_def by blast
  with same show ?thesis
    by simp
qed

text \<open>
  C9. Take an optimiser none of whose methods changes an existing array, whose
  \<^verbatim>\<open>theta_original_to_flat\<close> returns the flattened array, and whose
  \<^verbatim>\<open>optimize\<close> takes the given number of steps and then hands out its parameter
  vector. Then a call of \<open>sfo\<close> on an array \<open>x0\<close> of the store, with 50 for
  \<open>num_steps\<close> when none is given,
  \<^item> returns the parameter vector after exactly \<open>num_steps\<close> steps, taken from the
    state \<open>s\<close> in which \<^verbatim>\<open>set_theta\<close> has been called with \<open>x0\<close> and \<open>rho\<close> and
    the attribute \<^verbatim>\<open>theta_admm_prev\<close> has been overwritten: it refers to an array
    with the entries of \<open>x0\<close> as it was before the call, on one axis;
  \<^item> leaves every array that existed before the call at its address with its shape
    and entries, the array \<open>x0\<close> among them: what the call changes is the optimiser
    object, and the store only by new arrays.
\<close>

theorem sfo_effect:
  assumes "keeps_arrays optimizer" and "converts_to_flat optimizer"
    and "\<And>k s. optimize optimizer k s = finish ((step ^^ nat k) s)"
    and "x0 < length (arrays h)"
  shows "(\<exists>flat s.
            flat = fst (theta_original_to_flat optimizer x0 (set_theta optimizer x0 rho h))
            \<and> s = (snd (theta_original_to_flat optimizer x0 (set_theta optimizer x0 rho h)))
                    \<lparr>theta_admm_prev := Some flat\<rparr>
            \<and> sfo x0 rho optimizer num_steps h = finish ((step ^^ nat num_steps) s)
            \<and> theta_admm_prev s = Some flat
            \<and> flat < length (arrays s)
            \<and> arrays s ! flat = flatten (arrays h ! x0))
         \<and> sfo_default x0 rho optimizer h = sfo x0 rho optimizer 50 h
         \<and> unchanged_arrays h (snd (sfo x0 rho optimizer num_steps h))
         \<and> (\<forall>a < length (arrays h).
               a < length (arrays (snd (sfo x0 rho optimizer num_steps h)))
               \<and> arrays (snd (sfo x0 rho optimizer num_steps h)) ! a = arrays h ! a)"
proof -
  let ?flat = "fst (theta_original_to_flat optimizer x0 (set_theta optimizer x0 rho h))"
  let ?s = "(snd (theta_original_to_flat optimizer x0 (set_theta optimizer x0 rho h)))
              \<lparr>theta_admm_prev := Some ?flat\<rparr>"
  have "sfo x0 rho optimizer num_steps h = finish ((step ^^ nat num_steps) ?s)"
    by (simp only: sfo_steps assms(3))
  moreover have "theta_admm_prev ?s = Some ?flat"
    by simp
  moreover have "?flat < length (arrays ?s) \<and> arrays ?s ! ?flat = flatten (arrays h ! x0)"
    using sfo_flat_attribute [OF assms(1,2,4), of rho] by simp
  ultimately have first: "\<exists>flat s.
            flat = fst (theta_original_to_flat optimizer x0 (set_theta optimizer x0 rho h))
            \<and> s = (snd (theta_original_to_flat optimizer x0 (set_theta optimizer x0 rho h)))
                    \<lparr>theta_admm_prev := Some flat\<rparr>
            \<and> sfo x0 rho optimizer num_steps h = finish ((step ^^ nat num_steps) s)
            \<and> theta_admm_prev s = Some flat
            \<and> flat < length (arrays s)
            \<and> arrays s ! flat = flatten (arrays h ! x0)"
    by blast
  have default: "sfo_default x0 rho optimizer h = sfo x0 rho optimizer 50 h"
    by (simp add: sfo_default_def)
  have u: "unchanged_arrays h (snd (sfo x0 rho optimizer num_steps h))"
    using assms(1) by (rule sfo_unchanged_arrays)
  have "a < length (arrays (snd (sfo x0 rho optimizer num_steps h)))
      \<and> arrays (snd (sfo x0 rho optimizer num_steps h)) ! a = arrays h ! a"
    if "a < length (arrays h)" for a
    using u that by (rule unchanged_arrays_nth)
  with first default u show ?thesis
    by blast
qed

lemma halving_step_arrays: "arrays ((halving_step ^^ n) h) = arrays h"
  by (induction n) (simp_all add: halving_step_def split_def)

lemma keeps_arrays_halving: "keeps_arrays halving_sfo"
  by (simp add: keeps_arrays_def halving_sfo_def unchanged_arrays_def halving_result_def
      halving_step_arrays split_def)

lemma converts_to_flat_halving: "converts_to_flat halving_sfo"
  by (simp add: converts_to_flat_def halving_sfo_def nth_append)

theorem sfo_effect_witness:
  "sfo 0 3 halving_sfo 2
       \<lparr>arrays = [\<lparr>shape = [2, 1], data = [8, 4]\<rparr>], theta_admm_prev = None, internal = ([], 0, 7)\<rparr>
     = (2, \<lparr>arrays = [\<lparr>shape = [2, 1], data = [8, 4]\<rparr>, \<lparr>shape = [2], data = [8, 4]\<rparr>,
                      \<lparr>shape = [2], data = [2, 1]\<rparr>],
            theta_admm_prev = Some 1, internal = ([2, 1], 3, 2)\<rparr>)
   \<and> unchanged_arrays
       \<lparr>arrays = [\<lparr>shape = [2, 1], data = [8, 4]\<rparr>], theta_admm_prev = None, internal = ([], 0, 7)\<rparr>
       (snd (sfo 0 3 halving_sfo 2
          \<lparr>arrays = [\<lparr>shape = [2, 1], data = [8, 4]\<rparr>], theta_admm_prev = None, internal = ([], 0, 7)\<rparr>))"
proof -
  let ?h = "\<lparr>arrays = [\<lparr>shape = [2, 1], data = [8, 4 :: real]\<rparr>], theta_admm_prev = None,
             internal = ([] :: real list, 0 :: real, 7 :: nat)\<rparr>"
  have run: "optimize halving_sfo k s = halving_result ((halving_step ^^ nat k) s)" for k s
    by (simp add: halving_sfo_def)
  have x: "0 < length (arrays ?h)"
    by simp
  note t = sfo_effect [where optimizer = halving_sfo and finish = halving_result
      and step = halving_step and h = ?h and rho = 3 and num_steps = 2,
      OF keeps_arrays_halving converts_to_flat_halving run x]
  from t have "sfo 0 3 halving_sfo 2 ?h =
      halving_result ((halving_step ^^ nat 2)
        ((snd (theta_original_to_flat halving_sfo 0 (set_theta halving_sfo 0 3 ?h)))
           \<lparr>theta_admm_prev := Some (fst (theta_original_to_flat halving_sfo 0 (set_theta halving_sfo 0 3 ?h)))\<rparr>))"
    by blast
  also have "\<dots> = (2, \<lparr>arrays = [\<lparr>shape = [2, 1], data = [8, 4]\<rparr>, \<lparr>shape = [2], data = [8, 4]\<rparr>,
                      \<lparr>shape = [2], data = [2, 1]\<rparr>],
            theta_admm_prev = Some 1, internal = ([2, 1], 3, 2)\<rparr>)"
    by (simp add: halving_sfo_def halving_step_def halving_result_def flatten_def asize_def eval_nat_numeral)
  finally have 1: "sfo 0 3 halving_sfo 2 ?h =
      (2, \<lparr>arrays = [\<lparr>shape = [2, 1], data = [8, 4]\<rparr>, \<lparr>shape = [2], data = [8, 4]\<rparr>,
                      \<lparr>shape = [2], data = [2, 1]\<rparr>],
            theta_admm_prev = Some 1, internal = ([2, 1], 3, 2)\<rparr>)" .
  from t have 2: "unchanged_arrays ?h (snd (sfo 0 3 halving_sfo 2 ?h))"
    by blast
  from 1 2 show ?thesis by blast
qed

section \<open>The shape of the result\<close>

lemma sparse_shape: "sparse x0 rho gamma = Inr r \<Longrightarrow> shape r = shape x0"
  by (auto simp: sparse_def amap_def Let_def split: if_splits)

lemma nonneg_shape: "shape (nonneg x0 rho) = shape x0"
  by (simp add: nonneg_def amap_def)

lemma squared_error_shape:
  assumes "wf_array x0" and "wf_array x_obs" and "shape x_obs = shape x0"
    and "squared_error x0 rho x_obs = Inr r"
  shows "shape r = shape x0"
proof (cases "rho = 0")
  case True
  have "wf_array (amap (\<lambda>v. v / rho) x_obs)" and "shape (amap (\<lambda>v. v / rho) x_obs) = shape x0"
    using assms(2,3) by (simp_all add: wf_array_def amap_def)
  from np_binop_same_shape [OF assms(1) this, of "(+)"] True assms(4) show ?thesis
    by (simp add: squared_error_def)
next
  case False
  from squared_error_same_shape [OF False assms(1-3)] assms(4) show ?thesis
    by auto
qed

text \<open>
  \<open>bfgs\<close> hands back what the minimiser returns, and so does \<open>poissreg\<close>: with a
  minimiser that returns a flat vector the result has one axis, whatever the shape of
  \<open>x0\<close> is.
\<close>

lemma bfgs_shape:
  assumes "returns_flat fmin" and "bfgs fmin x0 rho f fgrad = Inr r"
  shows "shape r = [asize x0]"
  using assms by (auto simp: bfgs_def returns_flat_def Let_def)

lemma poissreg_shape:
  assumes "returns_flat fmin" and "poissreg fmin x0 rho x y = Inr r"
  shows "shape r = [asize x0]"
  using assms(2) bfgs_shape [OF assms(1)]
  by (auto simp: poissreg_def Let_def split: list.splits)

lemma flat_shape_iff: "([asize x0] = shape x0) = (length (shape x0) = 1)"
proof
  assume "[asize x0] = shape x0"
  then have "length (shape x0) = length [asize x0]" by simp
  then show "length (shape x0) = 1" by simp
next
  assume "length (shape x0) = 1"
  then obtain n where "shape x0 = [n]"
    by (cases "shape x0") auto
  then show "[asize x0] = shape x0" by (simp add: asize_def)
qed

lemma descent_shape: "descent k dg x = Inr r \<Longrightarrow> shape r = shape x"
proof (induction k arbitrary: x)
  case 0
  then show ?case by (auto simp: amap_def)
next
  case (Suc k)
  then show ?case
    by (auto simp: amap_def split: sum.splits option.splits if_splits dest!: Suc.IH)
qed

lemma returns_flat_descent: "returns_flat (fmin_descent k)"
  by (auto simp: returns_flat_def fmin_descent_def err_bind_def flatten_def
      split: sum.splits dest!: descent_shape)


text \<open>
  C3. The elementwise operators return an array of the shape of \<open>x0\<close> (lemmas
  above), but \<open>bfgs\<close> does not on a matrix, although its objective and gradient
  reshape the minimiser's flat argument to the shape of \<open>x0\<close>: the result of the
  minimiser is returned as it is. For the 2 by 2 matrix \<open>x0\<close> with the entries 1, 2,
  3, 4 and an objective with gradient zero the minimiser stops at the initial guess,
  and the result is the vector of the four entries of \<open>x0\<close>, of shape \<open>[4]\<close> and not
  \<open>[2, 2]\<close>. With a gradient that does not vanish the call fails: the gradient that
  \<open>bfgs\<close> hands to the minimiser has the shape of \<open>x0\<close>, not that of the flat
  parameter vector.
\<close>

theorem bfgs_flattens:
  "bfgs (fmin_descent 5) \<lparr>shape = [2, 2], data = [1, 2, 3, 4]\<rparr> 1 zero_objective (zero_gradient [2, 2])
     = Inr \<lparr>shape = [4], data = [Finite 1, Finite 2, Finite 3, Finite 4]\<rparr>
   \<and> shape \<lparr>shape = [4], data = [Finite 1, Finite 2, Finite 3, Finite 4]\<rparr>
       \<noteq> shape \<lparr>shape = [2, 2], data = [1, 2, 3, 4 :: real]\<rparr>
   \<and> bfgs (fmin_descent 5) \<lparr>shape = [2, 2], data = [1, 2, 3, 4]\<rparr> 1 zero_objective (unit_gradient [2, 2])
     = Inl ValueError"
  by code_simp

end
